theory Spec2Isabelle
  imports
    Main
    "HOL-Library.Char_ord"
    "HOL-Library.List_Lexorder"
    "HOL-Library.Product_Lexorder"
    "HOL-Library.Sublist"
    "HOL-Library.Multiset"
begin

section \<open>Exceptions\<close>

text \<open>
  The exceptions that can reach the code of app.py. A function that can raise returns
  \<open>py_error + 'a\<close>, with \<open>Inl\<close> for the exception.
\<close>

datatype py_error =
  IntegrityError | OperationalError | OverflowError | ValueError | TypeError |
  UnidentifiedImageError | OSError | BinasciiError


section \<open>Python string primitives used by app.py\<close>

text \<open>
  Strings are lists of characters, a character being a code point below 256.
  \<open>join sep xs\<close> is Python's \<^verbatim>\<open>sep.join(xs)\<close> and \<open>split sep s\<close> is \<^verbatim>\<open>s.split(sep)\<close>
  for a one-character separator: it cuts at every separator and keeps empty pieces, so
  the empty string splits into one empty piece.
\<close>

fun join :: "string \<Rightarrow> string list \<Rightarrow> string" where
  "join sep [] = []"
| "join sep [x] = x"
| "join sep (x # y # ys) = x @ sep @ join sep (y # ys)"

fun split :: "char \<Rightarrow> string \<Rightarrow> string list" where
  "split sep [] = [[]]"
| "split sep (c # cs) =
     (if c = sep then [] # split sep cs
      else (case split sep cs of [] \<Rightarrow> [[c]] | w # ws \<Rightarrow> (c # w) # ws))"

text \<open>
  \<^verbatim>\<open>str.strip()\<close> removes leading and trailing whitespace: below 256 these are the
  codes 9 to 13, 28 to 32, 133 and 160.
\<close>

definition is_space :: "char \<Rightarrow> bool" where
  "is_space c =
     (let n = (of_char c :: nat)
      in (9 \<le> n \<and> n \<le> 13) \<or> (28 \<le> n \<and> n \<le> 32) \<or> n = 133 \<or> n = 160)"

definition strip :: "string \<Rightarrow> string" where
  "strip s = rev (dropWhile is_space (rev (dropWhile is_space s)))"

text \<open>
  The decimal digits of a natural number, most significant first, and \<open>decimal\<close>, the
  text of an integer: a minus sign before the digits of a negative number.
\<close>

definition digit_char :: "nat \<Rightarrow> char" where
  "digit_char d = char_of (48 + d)"

function str_nat :: "nat \<Rightarrow> string" where
  "str_nat n =
     (if n < 10 then [digit_char n] else str_nat (n div 10) @ [digit_char (n mod 10)])"
  by pat_completeness auto
termination
  by (relation "measure id") auto

declare str_nat.simps [simp del]

definition decimal :: "int \<Rightarrow> string" where
  "decimal i = (if i < 0 then CHR ''-'' # str_nat (nat (- i)) else str_nat (nat i))"

text \<open>
  \<^verbatim>\<open>str(i)\<close> on an integer is its decimal text; Python 3.11 raises \<^verbatim>\<open>ValueError\<close> when
  the number has more than 4300 digits. \<open>str_all\<close> is \<^verbatim>\<open>map(str, people)\<close> as
  \<^verbatim>\<open>join\<close> consumes it: the first failure ends it.
\<close>

definition max_str_digits :: nat where
  "max_str_digits = 4300"

definition str_int :: "int \<Rightarrow> py_error + string" where
  "str_int i =
     (if length (str_nat (nat \<bar>i\<bar>)) > max_str_digits then Inl ValueError
      else Inr (decimal i))"

fun str_all :: "int list \<Rightarrow> py_error + string list" where
  "str_all [] = Inr []"
| "str_all (i # rest) =
     (case str_int i of
        Inl e \<Rightarrow> Inl e
      | Inr s \<Rightarrow> (case str_all rest of Inl e \<Rightarrow> Inl e | Inr ss \<Rightarrow> Inr (s # ss)))"

text \<open>
  \<^verbatim>\<open>int(s)\<close> on a string: \<open>None\<close> stands for the \<^verbatim>\<open>ValueError\<close> Python raises.
  Whitespace around the number is dropped (for \<^verbatim>\<open>int\<close> the codes 9 to 13, 32, 133 and
  160); then comes an optional sign and one or more digits, with single underscores
  allowed between digits; more than 4300 digits are refused.
\<close>

definition is_digit :: "char \<Rightarrow> bool" where
  "is_digit c = (CHR ''0'' \<le> c \<and> c \<le> CHR ''9'')"

definition digit_val :: "char \<Rightarrow> nat" where
  "digit_val c = of_char c - 48"

definition digits_value :: "string \<Rightarrow> nat" where
  "digits_value ds = foldl (\<lambda>a c. 10 * a + digit_val c) 0 ds"

definition is_int_space :: "char \<Rightarrow> bool" where
  "is_int_space c =
     (let n = (of_char c :: nat) in (9 \<le> n \<and> n \<le> 13) \<or> n = 32 \<or> n = 133 \<or> n = 160)"

definition parse_digits :: "string \<Rightarrow> nat option" where
  "parse_digits body =
     (let groups = split CHR ''_'' body in
      if list_all (\<lambda>g. g \<noteq> [] \<and> list_all is_digit g) groups \<and>
         length (concat groups) \<le> max_str_digits
      then Some (digits_value (concat groups)) else None)"

definition py_int :: "string \<Rightarrow> int option" where
  "py_int s =
     (case rev (dropWhile is_int_space (rev (dropWhile is_int_space s))) of
        [] \<Rightarrow> None
      | c # cs \<Rightarrow>
          if c = CHR ''-'' then map_option (\<lambda>n. - int n) (parse_digits cs)
          else if c = CHR ''+'' then map_option int (parse_digits cs)
          else map_option int (parse_digits (c # cs)))"


section \<open>Values as SQLite keeps them\<close>

text \<open>
  An integer bound to a statement, or held in a column, lies within 64 bits; the
  \<^verbatim>\<open>sqlite3\<close> module raises \<^verbatim>\<open>OverflowError\<close> for a Python integer outside that range.
\<close>

definition int64 :: "int \<Rightarrow> bool" where
  "int64 i \<longleftrightarrow> - 9223372036854775808 \<le> i \<and> i \<le> 9223372036854775807"

text \<open>
  The \<^verbatim>\<open>date\<close> column is declared \<^verbatim>\<open>DATE\<close>, which gives it NUMERIC affinity: a text
  that reads as a number is kept as that number, any other text as text. A text reads as
  a number when, between optional whitespace (the codes 9 to 13 and 32), it is an optional
  sign, digits with at most one point among them, at least one digit in all, and an
  optional exponent: \<^verbatim>\<open>e\<close> or \<^verbatim>\<open>E\<close>, an optional sign and one or more digits.

  A number written with digits only (and a sign) that lies within 64 bits is kept as that
  INTEGER. Every other number goes through a double: a REAL, or the INTEGER the double
  equals. Which double it is, is floating-point arithmetic and not part of this model: a
  \<open>DateReal\<close> cell keeps the text it came from, and the results below are about tables
  without such cells.
\<close>

datatype sql_date = DateInteger int | DateReal string | DateText string

definition is_sql_space :: "char \<Rightarrow> bool" where
  "is_sql_space c = (let n = (of_char c :: nat) in (9 \<le> n \<and> n \<le> 13) \<or> n = 32)"

definition sql_trim :: "string \<Rightarrow> string" where
  "sql_trim s = rev (dropWhile is_sql_space (rev (dropWhile is_sql_space s)))"

definition drop_sign :: "string \<Rightarrow> string" where
  "drop_sign s =
     (case s of [] \<Rightarrow> [] | c # cs \<Rightarrow> if c = CHR ''-'' \<or> c = CHR ''+'' then cs else s)"

definition exponent_ok :: "string \<Rightarrow> bool" where
  "exponent_ok r =
     (case r of
        [] \<Rightarrow> True
      | c # cs \<Rightarrow>
          (c = CHR ''e'' \<or> c = CHR ''E'') \<and> drop_sign cs \<noteq> [] \<and>
          list_all is_digit (drop_sign cs))"

definition numeric_literal :: "string \<Rightarrow> bool" where
  "numeric_literal s =
     (let t = drop_sign (sql_trim s);
          whole = takeWhile is_digit t;
          rest = dropWhile is_digit t
      in case rest of
           c # cs \<Rightarrow>
             if c = CHR ''.''
             then (whole \<noteq> [] \<or> takeWhile is_digit cs \<noteq> []) \<and>
                  exponent_ok (dropWhile is_digit cs)
             else whole \<noteq> [] \<and> exponent_ok rest
         | [] \<Rightarrow> whole \<noteq> [])"

definition integer_literal :: "string \<Rightarrow> int option" where
  "integer_literal s =
     (let t = sql_trim s; ds = drop_sign t in
      if ds \<noteq> [] \<and> list_all is_digit ds
      then Some (if take 1 t = ''-'' then - int (digits_value ds) else int (digits_value ds))
      else None)"

definition date_affinity :: "string \<Rightarrow> sql_date" where
  "date_affinity s =
     (if numeric_literal s then
        (case integer_literal s of
           Some i \<Rightarrow> if int64 i then DateInteger i else DateReal s
         | None \<Rightarrow> DateReal s)
      else DateText s)"

definition is_real_date :: "sql_date \<Rightarrow> bool" where
  "is_real_date c = (case c of DateReal s \<Rightarrow> True | _ \<Rightarrow> False)"

text \<open>
  The order of the cells in \<^verbatim>\<open>ORDER BY\<close>: every number is below every text, integers
  are ordered by value and texts byte by byte (the BINARY collation, which on UTF-8 is
  the order of the code points). The place of a \<open>DateReal\<close> cell among the numbers is not
  modelled; the key puts these cells below the integers.
\<close>

definition date_key :: "sql_date \<Rightarrow> nat \<times> int \<times> string" where
  "date_key c =
     (case c of
        DateReal s \<Rightarrow> (0, 0, s)
      | DateInteger i \<Rightarrow> (1, i, [])
      | DateText s \<Rightarrow> (2, 0, s))"


section \<open>External libraries\<close>

text \<open>
  hashlib, PIL, base64 and Streamlit are libraries outside the repository; app.py only
  calls them. They are parameters of the model. A decoded image is its width, its height
  and its pixel data, of a type \<open>'px\<close> the model does not look into.
  \<^item> \<open>sha256_hexdigest pw\<close> is \<^verbatim>\<open>hashlib.sha256(pw.encode()).hexdigest()\<close>;
  \<^item> \<open>image_open\<close> is \<^verbatim>\<open>Image.open(io.BytesIO(image))\<close>, which raises on bytes it
    cannot identify;
  \<^item> \<open>image_resample\<close> is the pixel work inside \<^verbatim>\<open>img.thumbnail\<close>: loading the data,
    which can raise on a damaged file, and resampling it to the given size;
  \<^item> \<open>image_save_jpeg\<close> is \<^verbatim>\<open>img.save(buffered, format="JPEG")\<close> followed by
    \<^verbatim>\<open>buffered.getvalue()\<close>, which raises for an image mode JPEG cannot hold;
  \<^item> \<open>b64encode\<close> is \<^verbatim>\<open>base64.b64encode(b).decode('utf-8')\<close> and \<open>b64decode\<close> is
    \<^verbatim>\<open>base64.b64decode\<close>, which raises on wrong padding;
  \<^item> \<open>st_image\<close> is \<^verbatim>\<open>st.image(img_bytes, use_column_width=True)\<close>, which raises on
    bytes that are no image;
  \<^item> \<open>float_text s\<close> is the text Python prints for the double that SQLite reads from
    the number \<open>s\<close>.
\<close>

record 'px picture =
  pic_width :: nat
  pic_height :: nat
  pic_pixels :: 'px

record 'px externals =
  sha256_hexdigest :: "string \<Rightarrow> string"
  image_open :: "string \<Rightarrow> py_error + 'px picture"
  image_resample :: "nat \<times> nat \<Rightarrow> 'px picture \<Rightarrow> py_error + 'px"
  image_save_jpeg :: "'px picture \<Rightarrow> py_error + string"
  b64encode :: "string \<Rightarrow> string"
  b64decode :: "string \<Rightarrow> py_error + string"
  st_image :: "string \<Rightarrow> py_error + unit"
  float_text :: "string \<Rightarrow> string"

text \<open>
  Modelled from the spec: the rounding inside PIL's \<^verbatim>\<open>Image.thumbnail\<close>, which is not
  part of the repository. Section 4.3 of the specification asks for the aspect ratio to
  be preserved, and section 8 for that to hold within rounding. The proportional value
  \<open>a / b\<close> of a dimension is rounded to one of its two neighbouring whole numbers, the
  one nearer in aspect ratio, the lower one when both are as near (as Pillow rounds), and
  to at least 1.
\<close>

definition ceil_div :: "nat \<Rightarrow> nat \<Rightarrow> nat" where
  "ceil_div a b = (if a mod b = 0 then a div b else a div b + 1)"

definition round_aspect_width :: "nat \<Rightarrow> nat \<Rightarrow> nat \<Rightarrow> nat" where
  "round_aspect_width mh w h =
     (let a = mh * w; f = a div h; c = ceil_div a h
      in max 1 (if a - f * h \<le> c * h - a then f else c))"

definition round_aspect_height :: "nat \<Rightarrow> nat \<Rightarrow> nat \<Rightarrow> nat" where
  "round_aspect_height mw w h =
     (let a = mw * h; f = a div w; c = ceil_div a w
      in max 1 (if f = 0 then 0 else if a * (f + c) \<le> 2 * w * f * c then f else c))"

text \<open>
  Modelled from the spec: the size PIL's \<^verbatim>\<open>Image.thumbnail\<close> gives an image, which
  the repository does not contain. Section 4.3 of the specification says that Normalize
  downsamples preserving the aspect ratio so that neither dimension exceeds the bound,
  and must not upsample a smaller image: an image within the bounds keeps its size;
  otherwise the dimension that limits the scale becomes its bound and the other one the
  rounded proportional value.
\<close>

definition thumbnail_size :: "nat \<times> nat \<Rightarrow> nat \<times> nat \<Rightarrow> nat \<times> nat" where
  "thumbnail_size max_size dims =
     (case (max_size, dims) of
        ((mw, mh), (w, h)) \<Rightarrow>
          if w \<le> mw \<and> h \<le> mh then (w, h)
          else if mh * w \<le> mw * h then (round_aspect_width mh w h, mh)
          else (mw, round_aspect_height mw w h))"

text \<open>
  Modelled from the spec: PIL's \<^verbatim>\<open>Image.thumbnail\<close> itself, absent from the
  repository: the image of the size above. An image that keeps its size is left as it
  is; the pixel work for any other is the library's.
\<close>

definition thumbnail ::
  "'px externals \<Rightarrow> nat \<times> nat \<Rightarrow> 'px picture \<Rightarrow> py_error + 'px picture" where
  "thumbnail lib max_size img =
     (let dims = thumbnail_size max_size (pic_width img, pic_height img) in
      if dims = (pic_width img, pic_height img) then Inr img
      else (case image_resample lib dims img of
              Inl e \<Rightarrow> Inl e
            | Inr px \<Rightarrow> Inr \<lparr>pic_width = fst dims, pic_height = snd dims, pic_pixels = px\<rparr>))"


section \<open>The database\<close>

text \<open>
  The two tables of \<^verbatim>\<open>init_db\<close>, each as the list of its rows in rowid order. Both
  primary keys are \<^verbatim>\<open>AUTOINCREMENT\<close>: SQLite keeps the largest rowid ever given out per
  table (\<open>user_seq\<close>, \<open>photo_seq\<close>) and gives the next row that number plus one.
  \<^verbatim>\<open>created_at\<close> defaults to \<^verbatim>\<open>CURRENT_TIMESTAMP\<close>, the clock at the insert in whole
  seconds; the clock is an input of every insert (\<open>now\<close>), and the fixed-width text
  SQLite stores is ordered as the number of seconds is. Columns declared \<^verbatim>\<open>TEXT\<close> hold
  the Python strings they are given; the \<^verbatim>\<open>date\<close> column holds an \<open>sql_date\<close>.
\<close>

record user =
  user_id :: int
  user_email :: string
  user_password :: string
  user_role :: string
  user_created_at :: nat

record photo =
  photo_id :: int
  photo_title :: string
  photo_description :: string
  photo_date :: sql_date
  photo_location :: string
  photo_people :: string
  photo_tags :: string
  photo_uploader_id :: int
  photo_image_data :: string
  photo_created_at :: nat

record db =
  users :: "user list"
  user_seq :: int
  photos :: "photo list"
  photo_seq :: int

definition empty_db :: db where
  "empty_db = \<lparr>users = [], user_seq = 0, photos = [], photo_seq = 0\<rparr>"

text \<open>
  \<^verbatim>\<open>INSERT INTO users (email, password, role) VALUES (?, ?, ?)\<close>: the \<^verbatim>\<open>UNIQUE\<close>
  constraint on email makes the statement raise \<^verbatim>\<open>sqlite3.IntegrityError\<close> and leave
  the table as it was.
\<close>

definition insert_user :: "db \<Rightarrow> string \<Rightarrow> string \<Rightarrow> string \<Rightarrow> nat \<Rightarrow> py_error + db" where
  "insert_user d email password role now =
     (if email \<in> set (map user_email (users d)) then Inl IntegrityError
      else Inr (d\<lparr>users := users d @
                    [\<lparr>user_id = user_seq d + 1, user_email = email,
                      user_password = password, user_role = role,
                      user_created_at = now\<rparr>],
                  user_seq := user_seq d + 1\<rparr>))"

definition demo_users :: "(string \<times> string \<times> string) list" where
  "demo_users =
     [(''john@family.com'', ''demo123'', ''Dad''),
      (''mary@family.com'', ''demo123'', ''Mum''),
      (''sarah@family.com'', ''demo123'', ''Daughter'')]"

text \<open>
  \<^verbatim>\<open>init_db\<close>: the tables exist in every \<open>db\<close> value, so \<^verbatim>\<open>CREATE TABLE IF NOT EXISTS\<close>
  changes nothing; the loop inserts each demo account and passes over an
  \<^verbatim>\<open>IntegrityError\<close>.
\<close>

definition init_db :: "'px externals \<Rightarrow> nat \<Rightarrow> db \<Rightarrow> db" where
  "init_db lib now d0 =
     foldl (\<lambda>d (email, pw, role).
              case insert_user d email (sha256_hexdigest lib pw) role now of
                Inl e \<Rightarrow> d
              | Inr d' \<Rightarrow> d')
       d0 demo_users"


section \<open>Helper functions of app.py\<close>

definition hash_password :: "'px externals \<Rightarrow> string \<Rightarrow> string" where
  "hash_password lib pw = sha256_hexdigest lib pw"

text \<open>
  \<^verbatim>\<open>fetchone()\<close> gives the first row of the result or \<^verbatim>\<open>None\<close>.
\<close>

definition authenticate :: "'px externals \<Rightarrow> db \<Rightarrow> string \<Rightarrow> string \<Rightarrow> (int \<times> string) option" where
  "authenticate lib d email pw =
     (let hashed_pw = hash_password lib pw in
      case find (\<lambda>u. user_email u = email \<and> user_password u = hashed_pw) (users d) of
        None \<Rightarrow> None
      | Some u \<Rightarrow> Some (user_id u, user_role u))"

definition get_all_users :: "db \<Rightarrow> (int \<times> string \<times> string) list" where
  "get_all_users d = map (\<lambda>u. (user_id u, user_email u, user_role u)) (users d)"

text \<open>
  \<^verbatim>\<open>save_photo\<close>. An empty list is false in \<^verbatim>\<open>if people\<close> and \<^verbatim>\<open>if tags\<close>. The text of
  the people is made first and raises when \<^verbatim>\<open>str\<close> does; then the insert binds
  \<open>uploader_id\<close>, which raises \<^verbatim>\<open>OverflowError\<close> outside 64 bits; the date goes through
  the column's affinity. The function has no \<^verbatim>\<open>return\<close> statement: the value the caller
  receives, when nothing was raised, is Python's \<^verbatim>\<open>None\<close>. The result is that value or
  the exception, and the database afterwards, unchanged by a call that raised.
\<close>

definition people_text :: "int list \<Rightarrow> py_error + string" where
  "people_text people =
     (if people \<noteq> [] then
        (case str_all people of Inl e \<Rightarrow> Inl e | Inr ss \<Rightarrow> Inr (join '','' ss))
      else Inr '''')"

definition save_photo ::
  "string \<Rightarrow> string \<Rightarrow> string \<Rightarrow> string \<Rightarrow> int list \<Rightarrow> string list \<Rightarrow> int \<Rightarrow> string \<Rightarrow>
   nat \<Rightarrow> db \<Rightarrow> (py_error + int option) \<times> db" where
  "save_photo title desc date loc people tags uploader_id image_data now d =
     (case people_text people of
        Inl e \<Rightarrow> (Inl e, d)
      | Inr people_str \<Rightarrow>
          (let tags_str = (if tags \<noteq> [] then join '','' tags else '''') in
           if \<not> int64 uploader_id then (Inl OverflowError, d)
           else (Inr None,
                 d\<lparr>photos := photos d @
                      [\<lparr>photo_id = photo_seq d + 1, photo_title = title,
                        photo_description = desc, photo_date = date_affinity date,
                        photo_location = loc, photo_people = people_str,
                        photo_tags = tags_str, photo_uploader_id = uploader_id,
                        photo_image_data = image_data, photo_created_at = now\<rparr>],
                    photo_seq := photo_seq d + 1\<rparr>)))"

text \<open>
  \<^verbatim>\<open>ORDER BY date DESC, created_at DESC\<close>. The rows are scanned in rowid order and each
  one is placed after every row already placed whose key is not smaller: rows whose date
  and creation time are both equal stay in rowid order, which is what SQLite's sorter
  does with equal keys (SQL itself leaves that order open).
\<close>

definition order_key :: "photo \<Rightarrow> (nat \<times> int \<times> string) \<times> nat" where
  "order_key p = (date_key (photo_date p), photo_created_at p)"

fun insert_desc :: "photo \<Rightarrow> photo list \<Rightarrow> photo list" where
  "insert_desc p [] = [p]"
| "insert_desc p (q # qs) =
     (if order_key q < order_key p then p # q # qs else q # insert_desc p qs)"

definition order_by_date_created :: "photo list \<Rightarrow> photo list" where
  "order_by_date_created rows = foldl (\<lambda>placed p. insert_desc p placed) [] rows"

definition get_all_photos :: "db \<Rightarrow> photo list" where
  "get_all_photos d = order_by_date_created (photos d)"

text \<open>
  SQLite's \<^verbatim>\<open>LIKE\<close>, pattern first: \<^verbatim>\<open>%\<close> stands for any run of characters, also the
  empty one, \<^verbatim>\<open>_\<close> for exactly one character, and any other character for itself, the
  letters A to Z and a to z without regard to case (a capital becomes its small letter
  by setting the bit of weight 32). There is no escape character unless the statement
  names one, and \<^verbatim>\<open>search_photos\<close> names none. The pattern and the text both end at
  their first NUL character (\<open>sql_like\<close>). A pattern of more than 50000 bytes of UTF-8
  (a character from 128 on takes two) makes \<^verbatim>\<open>LIKE\<close> fail, and the \<^verbatim>\<open>sqlite3\<close> module
  raise \<^verbatim>\<open>OperationalError\<close>, as soon as it is applied to a row.
\<close>

definition ascii_lower :: "char \<Rightarrow> char" where
  "ascii_lower c =
     (if CHR ''A'' \<le> c \<and> c \<le> CHR ''Z''
      then (case c of Char b0 b1 b2 b3 b4 b5 b6 b7 \<Rightarrow> Char b0 b1 b2 b3 b4 True b6 b7)
      else c)"

fun like :: "string \<Rightarrow> string \<Rightarrow> bool" where
  "like [] s = (s = [])"
| "like (p # ps) [] = (p = CHR ''%'' \<and> like ps [])"
| "like (p # ps) (c # cs) =
     (if p = CHR ''%'' then like ps (c # cs) \<or> like (p # ps) cs
      else (p = CHR ''_'' \<or> ascii_lower p = ascii_lower c) \<and> like ps cs)"

definition upto_nul :: "string \<Rightarrow> string" where
  "upto_nul s = takeWhile (\<lambda>c. c \<noteq> CHR 0x00) s"

definition sql_like :: "string \<Rightarrow> string \<Rightarrow> bool" where
  "sql_like pattern s = like (upto_nul pattern) (upto_nul s)"

definition utf8_length :: "string \<Rightarrow> nat" where
  "utf8_length s = sum_list (map (\<lambda>c. if (of_char c :: nat) < 128 then 1 else 2) s)"

definition max_like_pattern :: nat where
  "max_like_pattern = 50000"

definition search_photos :: "string \<Rightarrow> db \<Rightarrow> py_error + photo list" where
  "search_photos query d =
     (let like_query = ''%'' @ query @ ''%'' in
      if photos d \<noteq> [] \<and> utf8_length like_query > max_like_pattern then Inl OperationalError
      else Inr (order_by_date_created
        (filter (\<lambda>p. sql_like like_query (photo_title p) \<or>
                      sql_like like_query (photo_description p) \<or>
                      sql_like like_query (photo_location p) \<or>
                      sql_like like_query (photo_tags p) \<or>
                      sql_like like_query (photo_people p))
           (photos d))))"

text \<open>
  \<^verbatim>\<open>get_user_by_id\<close> binds the id to the query, which raises \<^verbatim>\<open>OverflowError\<close> for an
  id outside 64 bits.
\<close>

definition get_user_by_id :: "db \<Rightarrow> int \<Rightarrow> py_error + (string \<times> string) option" where
  "get_user_by_id d uid =
     (if \<not> int64 uid then Inl OverflowError
      else Inr (case find (\<lambda>u. user_id u = uid) (users d) of
                  None \<Rightarrow> None
                | Some u \<Rightarrow> Some (user_email u, user_role u)))"

definition default_max_size :: "nat \<times> nat" where
  "default_max_size = (800, 800)"

definition resize_image :: "'px externals \<Rightarrow> string \<Rightarrow> nat \<times> nat \<Rightarrow> py_error + string" where
  "resize_image lib raw max_size =
     (case image_open lib raw of
        Inl e \<Rightarrow> Inl e
      | Inr img \<Rightarrow>
          (case thumbnail lib max_size img of
             Inl e \<Rightarrow> Inl e
           | Inr small \<Rightarrow> image_save_jpeg lib small))"

definition base64_image :: "'px externals \<Rightarrow> string \<Rightarrow> string" where
  "base64_image lib image_bytes = b64encode lib image_bytes"


section \<open>The handlers of the Streamlit script\<close>

text \<open>
  What a handler shows through \<^verbatim>\<open>st.success\<close>, \<^verbatim>\<open>st.error\<close> and \<^verbatim>\<open>st.warning\<close>.
\<close>

datatype ui_message = Success string | Error string | Warning string

record session =
  session_id :: int
  session_email :: string
  session_role :: string

text \<open>The Login button: a tuple \<^verbatim>\<open>(id, role)\<close> is true in \<^verbatim>\<open>if user\<close>.\<close>

definition login :: "'px externals \<Rightarrow> db \<Rightarrow> string \<Rightarrow> string \<Rightarrow> ui_message + session" where
  "login lib d email pw =
     (case authenticate lib d email pw of
        Some (uid, role) \<Rightarrow>
          Inr \<lparr>session_id = uid, session_email = email, session_role = role\<rparr>
      | None \<Rightarrow> Inl (Error ''Invalid credentials''))"

text \<open>
  The Sign Up button. An empty string is false in
  \<^verbatim>\<open>if new_email and new_pw and new_role\<close>. The \<^verbatim>\<open>IntegrityError\<close> of the insert is
  caught and shown; nothing is committed then.
\<close>

definition sign_up ::
  "'px externals \<Rightarrow> string \<Rightarrow> string \<Rightarrow> string \<Rightarrow> nat \<Rightarrow> db \<Rightarrow> ui_message \<times> db" where
  "sign_up lib new_email new_pw new_role now d =
     (if new_email \<noteq> [] \<and> new_pw \<noteq> [] \<and> new_role \<noteq> [] then
        (let hashed_pw = hash_password lib new_pw in
         case insert_user d new_email hashed_pw new_role now of
           Inr d' \<Rightarrow> (Success ''Account created! Please login.'', d')
         | Inl e \<Rightarrow> (Error ''Email already exists'', d))
      else (Error ''Fill all fields'', d))"

text \<open>
  The Upload Photo expander. \<open>uploaded_file\<close> is the content of the uploaded file, if
  there is one; \<open>save_clicked\<close> is the Save Photo button. The outcome is what the handler
  has shown, in order, and the exception that left it, if one did: \<^verbatim>\<open>resize_image\<close> and
  \<^verbatim>\<open>save_photo\<close> are called outside any \<^verbatim>\<open>try\<close>, the first after the warning about a
  collage.
\<close>

record outcome =
  shown :: "ui_message list"
  raised :: "py_error option"

definition tags_list_of :: "string \<Rightarrow> string list" where
  "tags_list_of tags = (if tags \<noteq> [] then map strip (split CHR '','' tags) else [])"

definition upload_photo ::
  "'px externals \<Rightarrow> session \<Rightarrow> string \<Rightarrow> string \<Rightarrow> string \<Rightarrow> string \<Rightarrow> int list \<Rightarrow> string \<Rightarrow>
   string option \<Rightarrow> bool \<Rightarrow> bool \<Rightarrow> nat \<Rightarrow> db \<Rightarrow> outcome \<times> db" where
  "upload_photo lib usr title desc date loc people_ids tags uploaded_file is_collage
       save_clicked now d =
     (let tags_list = tags_list_of tags in
      case uploaded_file of
        None \<Rightarrow> (\<lparr>shown = [], raised = None\<rparr>, d)
      | Some image_bytes \<Rightarrow>
          (let warned =
                 (if is_collage
                  then [Warning ''In production, AI will detect and separate individual photos from this collage.'']
                  else [])
           in case resize_image lib image_bytes default_max_size of
                Inl e \<Rightarrow> (\<lparr>shown = warned, raised = Some e\<rparr>, d)
              | Inr resized_bytes \<Rightarrow>
                  (let image_data = base64_image lib resized_bytes in
                   if save_clicked
                   then (case save_photo title desc date loc people_ids tags_list
                                (session_id usr) image_data now d of
                           (Inl e, d') \<Rightarrow> (\<lparr>shown = warned, raised = Some e\<rparr>, d')
                         | (Inr r, d') \<Rightarrow>
                             (\<lparr>shown = warned @ [Success ''Photo saved!''], raised = None\<rparr>, d'))
                   else (\<lparr>shown = warned, raised = None\<rparr>, d))))"

text \<open>
  The Timeline view, one photo row at a time. It reads the two delimited columns back:
  \<open>stored_tags\<close> is \<^verbatim>\<open>tags_str.split(',') if tags_str else []\<close>, and \<open>stored_people\<close>
  is the list of \<^verbatim>\<open>int(pid)\<close> that the loop over \<^verbatim>\<open>people_str.split(',')\<close> goes through
  when \<^verbatim>\<open>people_str\<close> is not empty. \<open>people_loop\<close> is that loop: an id without a user
  adds nothing to \<open>people_emails\<close>. \<open>date_text\<close> is the date as the f-string of the
  expander's label prints it. The statements run in the order of the source: the uploader
  is looked up, then the people; the image is decoded and drawn; \<^verbatim>\<open>uploader[0]\<close> comes
  last and raises \<^verbatim>\<open>TypeError\<close> on \<^verbatim>\<open>None\<close>. The result is what the expander of the
  photo shows when no statement raised; the first exception ends the script, and what was
  drawn before it is not part of the result.
\<close>

definition stored_tags :: "photo \<Rightarrow> string list" where
  "stored_tags row = (if photo_tags row \<noteq> [] then split CHR '','' (photo_tags row) else [])"


definition date_text :: "'px externals \<Rightarrow> sql_date \<Rightarrow> string" where
  "date_text lib c =
     (case c of
        DateInteger i \<Rightarrow> decimal i
      | DateReal s \<Rightarrow> float_text lib s
      | DateText s \<Rightarrow> s)"

record card =
  card_label :: string
  card_image :: string
  card_lines :: "string list"

fun people_loop :: "db \<Rightarrow> string list \<Rightarrow> string list \<Rightarrow> py_error + string list" where
  "people_loop d [] people_emails = Inr people_emails"
| "people_loop d (pid # people_ids) people_emails =
     (case py_int pid of
        None \<Rightarrow> Inl ValueError
      | Some i \<Rightarrow>
          (case get_user_by_id d i of
             Inl e \<Rightarrow> Inl e
           | Inr None \<Rightarrow> people_loop d people_ids people_emails
           | Inr (Some p) \<Rightarrow> people_loop d people_ids (people_emails @ [fst p])))"

definition timeline_photo :: "'px externals \<Rightarrow> db \<Rightarrow> photo \<Rightarrow> py_error + card" where
  "timeline_photo lib d row =
     (case get_user_by_id d (photo_uploader_id row) of
        Inl e \<Rightarrow> Inl e
      | Inr uploader \<Rightarrow>
     (case (if photo_people row \<noteq> []
            then people_loop d (split CHR '','' (photo_people row)) []
            else Inr []) of
        Inl e \<Rightarrow> Inl e
      | Inr people_emails \<Rightarrow>
          (let tags = stored_tags row
           in case b64decode lib (photo_image_data row) of
                Inl e \<Rightarrow> Inl e
              | Inr img_bytes \<Rightarrow>
                  (case st_image lib img_bytes of
                     Inl e \<Rightarrow> Inl e
                   | Inr drawn \<Rightarrow>
                  (case uploader of
                     None \<Rightarrow> Inl TypeError
                   | Some (email, role) \<Rightarrow>
                       Inr \<lparr>card_label = photo_title row @ '' - '' @ date_text lib (photo_date row),
                            card_image = img_bytes,
                            card_lines =
                              [''**Description:** '' @ photo_description row,
                               ''**Location:** '' @ photo_location row,
                               ''**People:** '' @ join '', '' people_emails,
                               ''**Tags:** '' @ join '', '' tags,
                               ''**Uploaded by:** '' @ email @ '' ('' @ role @ '')'']\<rparr>)))))"

fun timeline :: "'px externals \<Rightarrow> db \<Rightarrow> photo list \<Rightarrow> py_error + card list" where
  "timeline lib d [] = Inr []"
| "timeline lib d (row # rows) =
     (case timeline_photo lib d row of
        Inl e \<Rightarrow> Inl e
      | Inr c \<Rightarrow>
          (case timeline lib d rows of
             Inl e \<Rightarrow> Inl e
           | Inr cs \<Rightarrow> Inr (c # cs)))"


section \<open>Properties the specification states, and the schema's invariant\<close>

text \<open>
  The specification's search condition: the query is a substring of the field, letters
  compared without regard to case (the choice \<^verbatim>\<open>LIKE\<close> makes for A to Z).
\<close>

definition contains_ci :: "string \<Rightarrow> string \<Rightarrow> bool" where
  "contains_ci query s = sublist (map ascii_lower query) (map ascii_lower s)"

text \<open>
  What the schema keeps true of every database: emails are \<^verbatim>\<open>UNIQUE\<close>, ids are primary
  keys, and no id is above its table's \<^verbatim>\<open>AUTOINCREMENT\<close> counter.
\<close>

definition db_ok :: "db \<Rightarrow> bool" where
  "db_ok d \<longleftrightarrow>
     distinct (map user_email (users d)) \<and> distinct (map user_id (users d)) \<and>
     list_all (\<lambda>u. user_id u \<le> user_seq d) (users d) \<and>
     distinct (map photo_id (photos d)) \<and>
     list_all (\<lambda>p. photo_id p \<le> photo_seq d) (photos d)"

text \<open>
  A stand-in for the libraries, to run the model on concrete inputs. Its digest is not
  SHA-256, and it takes for an image, as wide and as high as the bytes are many, any
  bytes that begin with IMG; the examples alone use it.
\<close>

definition test_lib :: "unit externals" where
  "test_lib =
     \<lparr>sha256_hexdigest = (\<lambda>pw. ''sha256:'' @ pw),
      image_open = (\<lambda>b. if prefix ''IMG'' b
                         then Inr \<lparr>pic_width = length b, pic_height = length b, pic_pixels = ()\<rparr>
                         else Inl UnidentifiedImageError),
      image_resample = (\<lambda>dims img. Inr ()),
      image_save_jpeg = (\<lambda>img. Inr ''JPEG''),
      b64encode = (\<lambda>b. b),
      b64decode = (\<lambda>t. Inr t),
      st_image = (\<lambda>b. Inr ()),
      float_text = (\<lambda>s. s)\<rparr>"


section \<open>Strings: decimal numbers and comma-separated lists\<close>

lemma digit_char_simps [simp]:
  "digit_char 0 = CHR ''0''" "digit_char (Suc 0) = CHR ''1''" "digit_char 1 = CHR ''1''"
  "digit_char 2 = CHR ''2''" "digit_char 3 = CHR ''3''" "digit_char 4 = CHR ''4''"
  "digit_char 5 = CHR ''5''" "digit_char 6 = CHR ''6''" "digit_char 7 = CHR ''7''"
  "digit_char 8 = CHR ''8''" "digit_char 9 = CHR ''9''"
  by code_simp+

lemma digit_val_char: "d < 10 \<Longrightarrow> digit_val (digit_char d) = d"
  by (simp add: digit_val_def digit_char_def)

lemma is_digit_char: "d < 10 \<Longrightarrow> is_digit (digit_char d)"
  by (simp add: is_digit_def digit_char_def less_eq_char_def)

lemma is_digit_not_comma: "is_digit c \<Longrightarrow> c \<noteq> CHR '',''"
  by (auto simp: is_digit_def less_eq_char_def)

lemma is_digit_not_sign: "is_digit c \<Longrightarrow> c \<noteq> CHR ''-'' \<and> c \<noteq> CHR ''+''"
  by (auto simp: is_digit_def less_eq_char_def)

lemma is_digit_not_underscore: "is_digit c \<Longrightarrow> c \<noteq> CHR ''_''"
  by (auto simp: is_digit_def less_eq_char_def)

lemma is_digit_not_space: "is_digit c \<Longrightarrow> \<not> is_int_space c"
  by (auto simp: is_digit_def is_int_space_def less_eq_char_def Let_def)

lemma minus_not_space: "\<not> is_int_space CHR ''-''"
  by (simp add: is_int_space_def)

lemma str_nat_digits: "list_all is_digit (str_nat n)"
proof (induction n rule: str_nat.induct)
  case (1 n)
  show ?case
  proof (cases "n < 10")
    case True
    then show ?thesis by (subst str_nat.simps) (simp add: is_digit_char)
  next
    case False
    with 1 show ?thesis by (subst str_nat.simps) (simp add: is_digit_char)
  qed
qed

lemma str_nat_nonempty: "str_nat n \<noteq> []"
  by (subst str_nat.simps) simp

lemma str_nat_value: "digits_value (str_nat n) = n"
proof (induction n rule: str_nat.induct)
  case (1 n)
  show ?case
  proof (cases "n < 10")
    case True
    then show ?thesis
      by (subst str_nat.simps) (simp add: digits_value_def digit_val_char)
  next
    case False
    with 1 show ?thesis
      by (subst str_nat.simps) (simp add: digits_value_def digit_val_char)
  qed
qed

text \<open>A number below \<open>10 ^ k\<close> has at most \<open>k\<close> digits.\<close>

lemma str_nat_length: "n < 10 ^ k \<Longrightarrow> 0 < k \<Longrightarrow> length (str_nat n) \<le> k"
proof (induction n arbitrary: k rule: str_nat.induct)
  case (1 n)
  show ?case
  proof (cases "n < 10")
    case True
    with "1.prems" show ?thesis by (subst str_nat.simps) simp
  next
    case False
    obtain j where k: "k = Suc j" using "1.prems"(2) by (cases k) auto
    have "0 < j"
    proof (rule ccontr)
      assume "\<not> 0 < j"
      with k "1.prems"(1) False show False by simp
    qed
    moreover have "n div 10 < 10 ^ j"
      using "1.prems"(1) k by (simp add: less_mult_imp_div_less mult.commute)
    ultimately have "length (str_nat (n div 10)) \<le> j"
      using "1.IH" [OF False] by blast
    with False k show ?thesis by (subst str_nat.simps) simp
  qed
qed

lemma int64_digits: "int64 i \<Longrightarrow> length (str_nat (nat \<bar>i\<bar>)) \<le> max_str_digits"
proof -
  assume "int64 i"
  then have "nat \<bar>i\<bar> < 10 ^ 19" unfolding int64_def by simp linarith
  then have "length (str_nat (nat \<bar>i\<bar>)) \<le> 19" by (rule str_nat_length) simp
  then show ?thesis by (simp add: max_str_digits_def)
qed

lemma str_int_int64: "int64 i \<Longrightarrow> str_int i = Inr (decimal i)"
  using int64_digits [of i] by (simp add: str_int_def)

lemma str_all_int64: "list_all int64 people \<Longrightarrow> str_all people = Inr (map decimal people)"
  by (induction people) (simp_all add: str_int_int64)

lemma people_text_int64:
  "list_all int64 people \<Longrightarrow>
   people_text people = Inr (if people \<noteq> [] then join '','' (map decimal people) else '''')"
  by (simp add: people_text_def str_all_int64)

lemma decimal_no_comma: "CHR '','' \<notin> set (decimal i)"
  using str_nat_digits is_digit_not_comma by (auto simp: decimal_def list_all_iff)

lemma decimal_nonempty: "decimal i \<noteq> []"
  by (simp add: decimal_def str_nat_nonempty)

lemma split_no_sep: "sep \<notin> set x \<Longrightarrow> split sep x = [x]"
  by (induction x) (auto split: list.splits)

lemma split_append_sep: "sep \<notin> set x \<Longrightarrow> split sep (x @ sep # rest) = x # split sep rest"
  by (induction x) (auto split: list.splits)

text \<open>Splitting undoes joining when no piece holds the separator.\<close>

lemma split_join:
  "xs \<noteq> [] \<Longrightarrow> \<forall>x\<in>set xs. sep \<notin> set x \<Longrightarrow> split sep (join [sep] xs) = xs"
proof (induction "[sep]" xs rule: join.induct)
  case 1
  then show ?case by simp
next
  case (2 x)
  then show ?case by (simp add: split_no_sep)
next
  case (3 x y ys)
  then show ?case by (simp add: split_append_sep)
qed

lemma join_eq_Nil: "sep \<noteq> [] \<Longrightarrow> join sep xs = [] \<longleftrightarrow> xs = [] \<or> xs = [[]]"
  by (cases "(sep, xs)" rule: join.cases) auto

lemma strip_unchanged:
  "s \<noteq> [] \<Longrightarrow> \<not> P (hd s) \<Longrightarrow> \<not> P (last s) \<Longrightarrow> rev (dropWhile P (rev (dropWhile P s))) = s"
proof -
  assume s: "s \<noteq> []" and h: "\<not> P (hd s)" and l: "\<not> P (last s)"
  from s h have "dropWhile P s = s" by (cases s) auto
  moreover from s l have "dropWhile P (rev s) = rev s"
    by (cases "rev s") (auto simp: last_rev [symmetric] simp del: last_rev)
  ultimately show ?thesis by simp
qed

lemma parse_digits_str_nat:
  "length (str_nat n) \<le> max_str_digits \<Longrightarrow> parse_digits (str_nat n) = Some n"
proof -
  assume len: "length (str_nat n) \<le> max_str_digits"
  have "CHR ''_'' \<notin> set (str_nat n)"
    using str_nat_digits [of n] is_digit_not_underscore by (auto simp: list_all_iff)
  then have "split CHR ''_'' (str_nat n) = [str_nat n]"
    by (rule split_no_sep)
  with len show ?thesis
    by (simp add: parse_digits_def str_nat_digits str_nat_nonempty str_nat_value)
qed

text \<open>\<^verbatim>\<open>int(str(i)) == i\<close> for every integer that \<^verbatim>\<open>str\<close> prints.\<close>

lemma py_int_decimal:
  assumes "length (str_nat (nat \<bar>i\<bar>)) \<le> max_str_digits"
  shows "py_int (decimal i) = Some i"
proof -
  obtain c cs where h: "str_nat (nat \<bar>i\<bar>) = c # cs" "is_digit c"
    using str_nat_digits [of "nat \<bar>i\<bar>"] str_nat_nonempty [of "nat \<bar>i\<bar>"]
    by (cases "str_nat (nat \<bar>i\<bar>)") auto
  have lastd: "is_digit (last (str_nat (nat \<bar>i\<bar>)))"
    using str_nat_digits [of "nat \<bar>i\<bar>"] str_nat_nonempty [of "nat \<bar>i\<bar>"]
    by (simp add: list_all_iff)
  have p: "parse_digits (c # cs) = Some (nat \<bar>i\<bar>)"
    using parse_digits_str_nat [OF assms] h by simp
  show ?thesis
  proof (cases "i < 0")
    case True
    then have d: "decimal i = CHR ''-'' # c # cs" using h by (simp add: decimal_def abs_if)
    have "rev (dropWhile is_int_space (rev (dropWhile is_int_space (decimal i)))) = decimal i"
      using d lastd h by (intro strip_unchanged) (simp_all add: minus_not_space is_digit_not_space)
    with d p True show ?thesis by (simp add: py_int_def)
  next
    case False
    then have d: "decimal i = c # cs" using h by (simp add: decimal_def abs_if)
    have "rev (dropWhile is_int_space (rev (dropWhile is_int_space (decimal i)))) = decimal i"
      using d lastd h by (intro strip_unchanged) (simp_all add: is_digit_not_space)
    with d p False h show ?thesis using is_digit_not_sign [of c] by (simp add: py_int_def)
  qed
qed

lemma py_int_decimal_int64: "int64 i \<Longrightarrow> py_int (decimal i) = Some i"
  by (rule py_int_decimal) (rule int64_digits)


section \<open>The ordering of query results\<close>

lemma mset_insert_desc: "mset (insert_desc p qs) = add_mset p (mset qs)"
  by (induction qs) auto

lemma set_insert_desc: "set (insert_desc p qs) = insert p (set qs)"
  by (induction qs) auto

lemma sorted_insert_desc:
  "sorted_wrt (\<lambda>a b. order_key b \<le> order_key a) qs \<Longrightarrow>
   sorted_wrt (\<lambda>a b. order_key b \<le> order_key a) (insert_desc p qs)"
  by (induction qs) (auto simp: set_insert_desc)

lemma foldl_insert_desc_mset:
  "mset (foldl (\<lambda>placed p. insert_desc p placed) acc rows) = mset acc + mset rows"
  by (induction rows arbitrary: acc) (auto simp: mset_insert_desc)

lemma foldl_insert_desc_sorted:
  "sorted_wrt (\<lambda>a b. order_key b \<le> order_key a) acc \<Longrightarrow>
   sorted_wrt (\<lambda>a b. order_key b \<le> order_key a)
     (foldl (\<lambda>placed p. insert_desc p placed) acc rows)"
  by (induction rows arbitrary: acc) (auto simp: sorted_insert_desc)

text \<open>The ordered result holds the same rows, each as often, as the table.\<close>

lemma mset_order_by: "mset (order_by_date_created rows) = mset rows"
  by (simp add: order_by_date_created_def foldl_insert_desc_mset)

lemma set_order_by: "set (order_by_date_created rows) = set rows"
  using mset_order_by [of rows] by (metis set_mset_mset)

lemma sorted_order_by:
  "sorted_wrt (\<lambda>a b. order_key b \<le> order_key a) (order_by_date_created rows)"
  by (simp add: order_by_date_created_def foldl_insert_desc_sorted)

text \<open>
  Ordering a filtered table gives the ordered table, filtered: a search result is the
  full listing with the rows that do not match left out.
\<close>

lemma filter_insert_desc:
  "sorted_wrt (\<lambda>a b. order_key b \<le> order_key a) qs \<Longrightarrow>
   filter P (insert_desc p qs) = (if P p then insert_desc p (filter P qs) else filter P qs)"
proof (induction qs)
  case Nil
  then show ?case by simp
next
  case (Cons q qs)
  show ?case
  proof (cases "order_key q < order_key p")
    case True
    have "\<forall>r\<in>set (filter P qs). order_key r < order_key p"
      using Cons.prems True by auto
    then have "P p \<Longrightarrow> insert_desc p (filter P qs) = p # filter P qs"
      by (cases "filter P qs") auto
    with True show ?thesis by auto
  next
    case False
    with Cons show ?thesis by auto
  qed
qed

lemma filter_foldl_insert_desc:
  "sorted_wrt (\<lambda>a b. order_key b \<le> order_key a) acc \<Longrightarrow>
   filter P (foldl (\<lambda>placed p. insert_desc p placed) acc rows) =
   foldl (\<lambda>placed p. insert_desc p placed) (filter P acc) (filter P rows)"
  by (induction rows arbitrary: acc) (auto simp: filter_insert_desc sorted_insert_desc)

lemma filter_order_by:
  "filter P (order_by_date_created rows) = order_by_date_created (filter P rows)"
  by (simp add: order_by_date_created_def filter_foldl_insert_desc)


section \<open>Saving a photo and listing it\<close>

lemma date_affinity_text: "\<not> numeric_literal date \<Longrightarrow> date_affinity date = DateText date"
  by (simp add: date_affinity_def)

text \<open>The two dates of the specification's example are kept as text.\<close>

lemma iso_dates_not_numeric:
  "\<not> numeric_literal ''2020-01-01''" "\<not> numeric_literal ''2021-06-15''"
  by (simp_all add: numeric_literal_def sql_trim_def is_sql_space_def drop_sign_def
      is_digit_def less_eq_char_def exponent_ok_def)

text \<open>
  A call with ids within 64 bits raises nothing, returns \<open>None\<close> and appends one row.
\<close>

lemma save_photo_int64:
  assumes "int64 uploader_id" and "list_all int64 people"
  shows "save_photo title desc date loc people tags uploader_id image_data now d =
    (Inr None,
     d\<lparr>photos := photos d @
         [\<lparr>photo_id = photo_seq d + 1, photo_title = title, photo_description = desc,
           photo_date = date_affinity date, photo_location = loc,
           photo_people = (if people \<noteq> [] then join '','' (map decimal people) else ''''),
           photo_tags = (if tags \<noteq> [] then join '','' tags else ''''),
           photo_uploader_id = uploader_id, photo_image_data = image_data,
           photo_created_at = now\<rparr>],
        photo_seq := photo_seq d + 1\<rparr>)"
  using assms by (simp add: save_photo_def people_text_int64)

lemma people_column_split:
  assumes "people \<noteq> []"
  shows "join '','' (map decimal people) \<noteq> [] \<and>
         split CHR '','' (join '','' (map decimal people)) = map decimal people"
proof -
  from assms have ne: "map decimal people \<noteq> []" by simp
  have nc: "\<forall>x\<in>set (map decimal people). CHR '','' \<notin> set x"
    using decimal_no_comma by auto
  have "map decimal people \<noteq> [[]]"
    using decimal_nonempty by (cases people) auto
  with ne have "join '','' (map decimal people) \<noteq> []" by (simp add: join_eq_Nil)
  moreover have "split CHR '','' (join '','' (map decimal people)) = map decimal people"
    using split_join [OF ne nc] by simp
  ultimately show ?thesis by simp
qed



text \<open>
  The upload form can produce the single empty tag: a tags field holding one blank is
  not empty, and its only piece is stripped to the empty string.
\<close>

lemma tags_list_of_blank: "tags_list_of '' '' = ['''']"
  by (simp add: tags_list_of_def strip_def is_space_def)





section \<open>The schema's invariant holds of every database the program builds\<close>

lemma db_ok_empty: "db_ok empty_db"
  by (simp add: db_ok_def empty_db_def)

lemma db_ok_insert_user:
  assumes "db_ok d" and "insert_user d email password role now = Inr d'"
  shows "db_ok d'"
proof -
  from assms(2) have fresh: "email \<notin> set (map user_email (users d))"
    and d': "d' = d\<lparr>users := users d @
                    [\<lparr>user_id = user_seq d + 1, user_email = email,
                      user_password = password, user_role = role,
                      user_created_at = now\<rparr>],
                  user_seq := user_seq d + 1\<rparr>"
    by (auto simp: insert_user_def split: if_splits)
  from assms(1) have "\<forall>u\<in>set (users d). user_id u \<le> user_seq d"
    by (simp add: db_ok_def list_all_iff)
  then have "user_seq d + 1 \<notin> user_id ` set (users d)" by auto
  with assms(1) fresh show ?thesis
    unfolding d' by (auto simp: db_ok_def list_all_iff)
qed

lemma db_ok_sign_up: "db_ok d \<Longrightarrow> db_ok (snd (sign_up lib new_email new_pw new_role now d))"
  by (auto simp: sign_up_def Let_def split: sum.splits dest: db_ok_insert_user)

lemma db_ok_init_step:
  "db_ok d \<Longrightarrow>
   db_ok (case insert_user d email password role now of Inl e \<Rightarrow> d | Inr d' \<Rightarrow> d')"
  by (auto split: sum.splits dest: db_ok_insert_user)

lemma db_ok_init_db: "db_ok d \<Longrightarrow> db_ok (init_db lib now d)"
  by (simp add: init_db_def demo_users_def db_ok_init_step)

lemma photo_seq_fresh: "db_ok d \<Longrightarrow> photo_seq d + 1 \<notin> photo_id ` set (photos d)"
  by (auto simp: db_ok_def list_all_iff)

lemma db_ok_save_photo:
  assumes "db_ok d"
  shows "db_ok (snd (save_photo title desc date loc people tags uploader_id image_data now d))"
proof (cases "people_text people")
  case (Inl e)
  with assms show ?thesis by (simp add: save_photo_def)
next
  case (Inr people_str)
  show ?thesis
  proof (cases "int64 uploader_id")
    case False
    with Inr assms show ?thesis by (simp add: save_photo_def)
  next
    case True
    from photo_seq_fresh [OF assms] assms Inr True show ?thesis
      by (auto simp: db_ok_def save_photo_def list_all_iff)
  qed
qed

lemma db_ok_upload_photo:
  assumes "db_ok d"
  shows "db_ok (snd (upload_photo lib usr title desc date loc people_ids tags uploaded_file
                 is_collage save_clicked now d))"
proof (cases uploaded_file)
  case None
  with assms show ?thesis by (simp add: upload_photo_def)
next
  case (Some image_bytes)
  show ?thesis
  proof (cases "resize_image lib image_bytes default_max_size")
    case (Inl e)
    with Some assms show ?thesis by (simp add: upload_photo_def)
  next
    case (Inr resized)
    obtain r d' where s: "save_photo title desc date loc people_ids (tags_list_of tags)
        (session_id usr) (base64_image lib resized) now d = (r, d')"
      by (cases "save_photo title desc date loc people_ids (tags_list_of tags)
        (session_id usr) (base64_image lib resized) now d") auto
    from db_ok_save_photo [OF assms, of title desc date loc people_ids "tags_list_of tags"
        "session_id usr" "base64_image lib resized" now] s
    have "db_ok d'" by simp
    with Some Inr s assms show ?thesis
      by (cases r) (simp_all add: upload_photo_def Let_def)
  qed
qed


section \<open>What \<open>save_photo\<close> returns\<close>





section \<open>The credential store\<close>

lemma find_Some_mem: "find P xs = Some x \<Longrightarrow> P x \<and> x \<in> set xs"
  by (induction xs) (auto split: if_splits)

lemma find_unique_email:
  "distinct (map user_email xs) \<Longrightarrow> u \<in> set xs \<Longrightarrow> user_password u = h \<Longrightarrow>
   find (\<lambda>v. user_email v = user_email u \<and> user_password v = h) xs = Some u"
proof (induction xs)
  case Nil
  then show ?case by simp
next
  case (Cons x xs)
  show ?case
  proof (cases "x = u")
    case True
    with Cons.prems show ?thesis by simp
  next
    case False
    with Cons.prems have mem: "u \<in> set xs" by simp
    with Cons.prems have "user_email x \<noteq> user_email u" by force
    with Cons mem show ?thesis by simp
  qed
qed

lemma authenticate_None_iff:
  "authenticate lib d email pw = None \<longleftrightarrow>
   \<not> (\<exists>u\<in>set (users d). user_email u = email \<and> user_password u = hash_password lib pw)"
proof (cases "find (\<lambda>u. user_email u = email \<and> user_password u = hash_password lib pw) (users d)")
  case None
  then have "authenticate lib d email pw = None" by (simp add: authenticate_def)
  moreover from None
  have "\<not> (\<exists>u\<in>set (users d). user_email u = email \<and> user_password u = hash_password lib pw)"
    by (simp add: find_None_iff)
  ultimately show ?thesis by simp
next
  case (Some u)
  from find_Some_mem [OF Some] have "u \<in> set (users d)" "user_email u = email"
    "user_password u = hash_password lib pw" by simp_all
  then have "\<exists>u\<in>set (users d). user_email u = email \<and> user_password u = hash_password lib pw"
    by blast
  moreover from Some have "authenticate lib d email pw \<noteq> None" by (simp add: authenticate_def)
  ultimately show ?thesis by simp
qed

lemma authenticate_Some_iff:
  assumes "db_ok d"
  shows "authenticate lib d email pw = Some (uid, role) \<longleftrightarrow>
     (\<exists>u\<in>set (users d). user_email u = email \<and> user_password u = hash_password lib pw \<and>
         user_id u = uid \<and> user_role u = role)"
proof
  assume "authenticate lib d email pw = Some (uid, role)"
  then obtain u where
    f: "find (\<lambda>u. user_email u = email \<and> user_password u = hash_password lib pw) (users d) = Some u"
    and u: "user_id u = uid" "user_role u = role"
    by (auto simp: authenticate_def split: option.splits)
  from find_Some_mem [OF f]
  have "u \<in> set (users d)" "user_email u = email" "user_password u = hash_password lib pw"
    by simp_all
  with u show "\<exists>u\<in>set (users d). user_email u = email \<and>
      user_password u = hash_password lib pw \<and> user_id u = uid \<and> user_role u = role"
    by blast
next
  assume "\<exists>u\<in>set (users d). user_email u = email \<and> user_password u = hash_password lib pw \<and>
         user_id u = uid \<and> user_role u = role"
  then obtain u where u: "u \<in> set (users d)" "user_email u = email"
    "user_password u = hash_password lib pw" "user_id u = uid" "user_role u = role"
    by blast
  from assms have "distinct (map user_email (users d))" by (simp add: db_ok_def)
  from find_unique_email [OF this u(1) u(3)] u(2)
  have "find (\<lambda>v. user_email v = email \<and> user_password v = hash_password lib pw) (users d) = Some u"
    by simp
  with u show "authenticate lib d email pw = Some (uid, role)"
    by (simp add: authenticate_def)
qed

lemma login_None: "authenticate lib d email pw = None \<Longrightarrow>
    login lib d email pw = Inl (Error ''Invalid credentials'')"
  by (simp add: login_def)

text \<open>
  C2. In a database whose emails are unique (the schema's invariant), \<open>authenticate\<close>
  returns the pair of id and role exactly when a stored user has the given email and the
  digest of the given password, and that user's id and role are the pair. It returns
  nothing exactly when no stored user matches both. An unknown email and a wrong password
  both give \<open>None\<close> and the same message of the Login handler.
\<close>

theorem authenticate_exactly_matching_user:
  assumes "db_ok d"
  shows "(authenticate lib d email pw = Some (uid, role) \<longleftrightarrow>
            (\<exists>u\<in>set (users d). user_email u = email \<and>
                user_password u = hash_password lib pw \<and> user_id u = uid \<and> user_role u = role)) \<and>
         (authenticate lib d email pw = None \<longleftrightarrow>
            \<not> (\<exists>u\<in>set (users d). user_email u = email \<and>
                  user_password u = hash_password lib pw)) \<and>
         (email \<notin> user_email ` set (users d) \<longrightarrow>
            authenticate lib d email pw = None \<and>
            login lib d email pw = Inl (Error ''Invalid credentials'')) \<and>
         (hash_password lib pw \<notin> user_password ` {u \<in> set (users d). user_email u = email} \<longrightarrow>
            authenticate lib d email pw = None \<and>
            login lib d email pw = Inl (Error ''Invalid credentials''))"
proof -
  have some: "authenticate lib d email pw = Some (uid, role) \<longleftrightarrow>
            (\<exists>u\<in>set (users d). user_email u = email \<and>
                user_password u = hash_password lib pw \<and> user_id u = uid \<and> user_role u = role)"
    by (rule authenticate_Some_iff [OF assms])
  have none: "authenticate lib d email pw = None \<longleftrightarrow>
            \<not> (\<exists>u\<in>set (users d). user_email u = email \<and>
                  user_password u = hash_password lib pw)"
    by (rule authenticate_None_iff)
  have unknown: "authenticate lib d email pw = None \<and>
            login lib d email pw = Inl (Error ''Invalid credentials'')"
    if "email \<notin> user_email ` set (users d)"
  proof -
    from that have "\<not> (\<exists>u\<in>set (users d). user_email u = email \<and>
                  user_password u = hash_password lib pw)" by auto
    with none have "authenticate lib d email pw = None" by simp
    then show ?thesis by (simp add: login_None)
  qed
  have wrong: "authenticate lib d email pw = None \<and>
            login lib d email pw = Inl (Error ''Invalid credentials'')"
    if "hash_password lib pw \<notin> user_password ` {u \<in> set (users d). user_email u = email}"
  proof -
    have "\<not> (\<exists>u\<in>set (users d). user_email u = email \<and>
                  user_password u = hash_password lib pw)"
    proof
      assume "\<exists>u\<in>set (users d). user_email u = email \<and> user_password u = hash_password lib pw"
      then obtain u where "u \<in> {u \<in> set (users d). user_email u = email}"
        and "user_password u = hash_password lib pw" by blast
      then have "hash_password lib pw \<in> user_password ` {u \<in> set (users d). user_email u = email}"
        by (metis imageI)
      with that show False by simp
    qed
    with none have "authenticate lib d email pw = None" by simp
    then show ?thesis by (simp add: login_None)
  qed
  from unknown wrong show ?thesis
    by (intro conjI impI some none) simp_all
qed

theorem authenticate_exactly_matching_user_witness:
  "db_ok (init_db test_lib 0 empty_db) \<and>
   authenticate test_lib (init_db test_lib 0 empty_db) ''mary@family.com'' ''demo123''
     = Some (2, ''Mum'') \<and>
   authenticate test_lib (init_db test_lib 0 empty_db) ''mary@family.com'' ''wrong'' = None \<and>
   login test_lib (init_db test_lib 0 empty_db) ''mary@family.com'' ''wrong''
     = Inl (Error ''Invalid credentials'') \<and>
   authenticate test_lib (init_db test_lib 0 empty_db) ''nobody@family.com'' ''demo123'' = None \<and>
   login test_lib (init_db test_lib 0 empty_db) ''nobody@family.com'' ''demo123''
     = Inl (Error ''Invalid credentials'')"
proof -
  let ?d = "init_db test_lib 0 empty_db"
  have ok: "db_ok ?d"
    by (rule db_ok_init_db [OF db_ok_empty])
  have us: "users ?d =
      [\<lparr>user_id = 1, user_email = ''john@family.com'', user_password = ''sha256:demo123'',
        user_role = ''Dad'', user_created_at = 0\<rparr>,
       \<lparr>user_id = 2, user_email = ''mary@family.com'', user_password = ''sha256:demo123'',
        user_role = ''Mum'', user_created_at = 0\<rparr>,
       \<lparr>user_id = 3, user_email = ''sarah@family.com'', user_password = ''sha256:demo123'',
        user_role = ''Daughter'', user_created_at = 0\<rparr>]"
    by (simp add: init_db_def demo_users_def insert_user_def empty_db_def test_lib_def)
  have h: "hash_password test_lib ''demo123'' = ''sha256:demo123''"
      "hash_password test_lib ''wrong'' = ''sha256:wrong''"
    by (simp_all add: hash_password_def test_lib_def)
  note thm1 = authenticate_exactly_matching_user [OF ok, of test_lib "''mary@family.com''"
      "''demo123''" 2 "''Mum''"]
  note thm2 = authenticate_exactly_matching_user [OF ok, of test_lib "''mary@family.com''"
      "''wrong''" 2 "''Mum''"]
  note thm3 = authenticate_exactly_matching_user [OF ok, of test_lib "''nobody@family.com''"
      "''demo123''" 2 "''Mum''"]
  have a: "authenticate test_lib ?d ''mary@family.com'' ''demo123'' = Some (2, ''Mum'')"
    unfolding thm1 [THEN conjunct1] by (simp add: us h)
  have "hash_password test_lib ''wrong'' \<notin>
      user_password ` {u \<in> set (users ?d). user_email u = ''mary@family.com''}"
    by (auto simp: us h)
  with thm2 have b: "authenticate test_lib ?d ''mary@family.com'' ''wrong'' = None \<and>
      login test_lib ?d ''mary@family.com'' ''wrong'' = Inl (Error ''Invalid credentials'')"
    by blast
  have "''nobody@family.com'' \<notin> user_email ` set (users ?d)"
    by (simp add: us)
  with thm3 have c: "authenticate test_lib ?d ''nobody@family.com'' ''demo123'' = None \<and>
      login test_lib ?d ''nobody@family.com'' ''demo123'' = Inl (Error ''Invalid credentials'')"
    by blast
  from ok a b c show ?thesis by simp
qed


section \<open>Signing up\<close>

lemma insert_user_fresh:
  "email \<notin> set (map user_email (users d)) \<Longrightarrow>
   insert_user d email password role now =
     Inr (d\<lparr>users := users d @
                [\<lparr>user_id = user_seq d + 1, user_email = email, user_password = password,
                  user_role = role, user_created_at = now\<rparr>],
           user_seq := user_seq d + 1\<rparr>)"
  by (simp add: insert_user_def)

lemma insert_user_duplicate:
  "email \<in> set (map user_email (users d)) \<Longrightarrow>
   insert_user d email password role now = Inl IntegrityError"
  by (simp add: insert_user_def)

text \<open>
  C3, as the code has it. With an email, a password and a role that are not empty:
  signing up with an email that is not stored shows the success message and appends one
  user holding the email, the digest of the password and the role; signing up with that
  email again, whatever the password and the role, shows \<open>Email already exists\<close> as a
  message of the handler (no exception leaves it) and leaves the database, as any sign-up
  with a stored email does, exactly as it was.
\<close>

theorem sign_up_then_duplicate:
  assumes "new_email \<noteq> []" and "new_pw \<noteq> []" and "new_role \<noteq> []"
    and "pw2 \<noteq> []" and "role2 \<noteq> []"
  shows "(new_email \<notin> set (map user_email (users d)) \<longrightarrow>
            (\<exists>d' u. sign_up lib new_email new_pw new_role now d =
                      (Success ''Account created! Please login.'', d') \<and>
                    users d' = users d @ [u] \<and> photos d' = photos d \<and>
                    user_email u = new_email \<and>
                    user_password u = hash_password lib new_pw \<and> user_role u = new_role \<and>
                    sign_up lib new_email pw2 role2 now2 d' = (Error ''Email already exists'', d'))) \<and>
         (new_email \<in> set (map user_email (users d)) \<longrightarrow>
            sign_up lib new_email new_pw new_role now d = (Error ''Email already exists'', d))"
proof (intro conjI impI)
  assume fresh: "new_email \<notin> set (map user_email (users d))"
  let ?u = "\<lparr>user_id = user_seq d + 1, user_email = new_email,
             user_password = hash_password lib new_pw, user_role = new_role,
             user_created_at = now\<rparr>"
  let ?d' = "d\<lparr>users := users d @ [?u], user_seq := user_seq d + 1\<rparr>"
  have first: "sign_up lib new_email new_pw new_role now d =
      (Success ''Account created! Please login.'', ?d')"
    using assms fresh by (simp add: sign_up_def insert_user_fresh)
  have "new_email \<in> set (map user_email (users ?d'))" by simp
  then have second: "sign_up lib new_email pw2 role2 now2 ?d' = (Error ''Email already exists'', ?d')"
    using assms by (simp add: sign_up_def insert_user_duplicate del: set_map)
  have "sign_up lib new_email new_pw new_role now d =
          (Success ''Account created! Please login.'', ?d') \<and>
        users ?d' = users d @ [?u] \<and> photos ?d' = photos d \<and> user_email ?u = new_email \<and>
        user_password ?u = hash_password lib new_pw \<and> user_role ?u = new_role \<and>
        sign_up lib new_email pw2 role2 now2 ?d' = (Error ''Email already exists'', ?d')"
    using first second by simp
  then show "\<exists>d' u. sign_up lib new_email new_pw new_role now d =
                      (Success ''Account created! Please login.'', d') \<and>
                    users d' = users d @ [u] \<and> photos d' = photos d \<and>
                    user_email u = new_email \<and>
                    user_password u = hash_password lib new_pw \<and> user_role u = new_role \<and>
                    sign_up lib new_email pw2 role2 now2 d' = (Error ''Email already exists'', d')"
    by blast
next
  assume "new_email \<in> set (map user_email (users d))"
  then show "sign_up lib new_email new_pw new_role now d = (Error ''Email already exists'', d)"
    using assms by (simp add: sign_up_def insert_user_duplicate del: set_map)
qed

theorem sign_up_then_duplicate_witness:
  "\<exists>d' u. sign_up test_lib ''tala@family.com'' ''secret'' ''Son'' 5 (init_db test_lib 0 empty_db) =
            (Success ''Account created! Please login.'', d') \<and>
          users d' = users (init_db test_lib 0 empty_db) @ [u] \<and>
          photos d' = photos (init_db test_lib 0 empty_db) \<and>
          user_email u = ''tala@family.com'' \<and>
          user_password u = hash_password test_lib ''secret'' \<and> user_role u = ''Son'' \<and>
          sign_up test_lib ''tala@family.com'' ''other'' ''Dad'' 9 d' =
            (Error ''Email already exists'', d')"
proof -
  have "''tala@family.com'' \<notin> set (map user_email (users (init_db test_lib 0 empty_db)))"
    by (simp add: init_db_def demo_users_def insert_user_def empty_db_def test_lib_def)
  with sign_up_then_duplicate [of "''tala@family.com''" "''secret''" "''Son''" "''other''" "''Dad''"
      "init_db test_lib 0 empty_db" test_lib 5 9]
  show ?thesis by simp
qed

text \<open>
  The claim as stated fails when a field is left empty: an email that is not stored,
  with an empty password, is not registered.
\<close>

theorem sign_up_empty_password_refused:
  "''tala@family.com'' \<notin> set (map user_email (users (init_db test_lib 0 empty_db))) \<and>
   sign_up test_lib ''tala@family.com'' '''' ''Son'' 5 (init_db test_lib 0 empty_db) =
     (Error ''Fill all fields'', init_db test_lib 0 empty_db)"
  by (simp add: sign_up_def init_db_def demo_users_def insert_user_def empty_db_def test_lib_def)


section \<open>The order of listings and search results\<close>

lemma search_photos_within_limit:
  assumes "photos d = [] \<or> utf8_length (''%'' @ query @ ''%'') \<le> max_like_pattern"
  shows "search_photos query d =
   Inr (filter (\<lambda>p. sql_like (''%'' @ query @ ''%'') (photo_title p) \<or>
                     sql_like (''%'' @ query @ ''%'') (photo_description p) \<or>
                     sql_like (''%'' @ query @ ''%'') (photo_location p) \<or>
                     sql_like (''%'' @ query @ ''%'') (photo_tags p) \<or>
                     sql_like (''%'' @ query @ ''%'') (photo_people p))
          (get_all_photos d))"
proof -
  from assms have "\<not> (photos d \<noteq> [] \<and> utf8_length (''%'' @ query @ ''%'') > max_like_pattern)"
    by auto
  then show ?thesis
    by (simp add: search_photos_def get_all_photos_def filter_order_by Let_def
        del: append.simps)
qed

lemma sorted_wrt_filter_desc:
  "sorted_wrt (\<lambda>a b. order_key b \<le> order_key a) xs \<Longrightarrow>
   sorted_wrt (\<lambda>a b. order_key b \<le> order_key a) (filter P xs)"
  by (induction xs) auto

lemma lex_le_iff:
  fixes k1 k2 :: "'a :: linorder" and t1 t2 :: "'b :: linorder"
  shows "(k1, t1) \<le> (k2, t2) \<longleftrightarrow> k1 < k2 \<or> (k1 = k2 \<and> t1 \<le> t2)"
  unfolding less_eq_prod_def by auto

lemma order_key_le_iff:
  "order_key b \<le> order_key a \<longleftrightarrow>
   date_key (photo_date b) < date_key (photo_date a) \<or>
   (date_key (photo_date b) = date_key (photo_date a) \<and>
    photo_created_at b \<le> photo_created_at a)"
  by (simp only: order_key_def lex_le_iff)

text \<open>
  Between cells that are not REAL, the key orders as SQLite does: a number before a text,
  two integers by value, two texts by their characters; and equal keys are equal cells.
\<close>

lemma date_key_less_iff:
  "\<not> is_real_date a \<Longrightarrow> \<not> is_real_date b \<Longrightarrow>
   date_key a < date_key b \<longleftrightarrow>
     (case (a, b) of
        (DateInteger i, DateInteger j) \<Rightarrow> i < j
      | (DateInteger i, DateText t) \<Rightarrow> True
      | (DateText s, DateText t) \<Rightarrow> s < t
      | _ \<Rightarrow> False)"
  by (cases a; cases b) (auto simp: date_key_def is_real_date_def less_prod_def)

lemma date_key_eq_iff:
  "\<not> is_real_date a \<Longrightarrow> \<not> is_real_date b \<Longrightarrow> date_key a = date_key b \<longleftrightarrow> a = b"
  by (cases a; cases b) (auto simp: date_key_def is_real_date_def)

text \<open>
  C4, as the code has it. In a table without REAL date cells, \<open>get_all_photos\<close> returns
  the rows by date descending, rows of one date by creation timestamp descending: of two
  rows in the result, the later one has a lower date (numbers below texts, integers by
  value, texts by their characters), or the same date and a creation timestamp that is
  not later. \<open>search_photos\<close>, when the pattern is within the limit of \<^verbatim>\<open>LIKE\<close> (or the
  table is empty), raises nothing and returns the listing restricted to the matching
  rows, so in the same order. In particular, after photos dated 2020-01-01, 2021-06-15
  and 2021-06-15 are saved in that order into an empty table, with ids within 64 bits,
  the listing has the two photos of 2021-06-15 before the one of 2020-01-01, and when the
  third was saved at a later clock reading than the second, the third comes first.
\<close>

theorem listing_order:
  "(list_all (\<lambda>r. \<not> is_real_date (photo_date r)) (photos d) \<longrightarrow>
      sorted_wrt (\<lambda>a b. date_key (photo_date b) < date_key (photo_date a) \<or>
                    (photo_date b = photo_date a \<and> photo_created_at b \<le> photo_created_at a))
        (get_all_photos d)) \<and>
   (list_all (\<lambda>r. \<not> is_real_date (photo_date r)) (photos d) \<and>
    (photos d = [] \<or> utf8_length (''%'' @ query @ ''%'') \<le> max_like_pattern) \<longrightarrow>
      (\<exists>rows. search_photos query d = Inr rows \<and>
         sorted_wrt (\<lambda>a b. date_key (photo_date b) < date_key (photo_date a) \<or>
                    (photo_date b = photo_date a \<and> photo_created_at b \<le> photo_created_at a))
           rows \<and>
         rows = filter (\<lambda>p. sql_like (''%'' @ query @ ''%'') (photo_title p) \<or>
                             sql_like (''%'' @ query @ ''%'') (photo_description p) \<or>
                             sql_like (''%'' @ query @ ''%'') (photo_location p) \<or>
                             sql_like (''%'' @ query @ ''%'') (photo_tags p) \<or>
                             sql_like (''%'' @ query @ ''%'') (photo_people p))
                  (get_all_photos d))) \<and>
   (photos d = [] \<and> t2 < t3 \<and> int64 up1 \<and> int64 up2 \<and> int64 up3 \<and>
    list_all int64 people1 \<and> list_all int64 people2 \<and> list_all int64 people3 \<longrightarrow>
      map photo_id (get_all_photos
        (snd (save_photo title3 desc3 ''2021-06-15'' loc3 people3 tags3 up3 img3 t3
          (snd (save_photo title2 desc2 ''2021-06-15'' loc2 people2 tags2 up2 img2 t2
            (snd (save_photo title1 desc1 ''2020-01-01'' loc1 people1 tags1 up1 img1 t1 d)))))))
      = [photo_seq d + 3, photo_seq d + 2, photo_seq d + 1])"
proof -
  let ?R = "\<lambda>a b. date_key (photo_date b) < date_key (photo_date a) \<or>
                    (photo_date b = photo_date a \<and> photo_created_at b \<le> photo_created_at a)"
  have sorted: "sorted_wrt ?R (filter P (get_all_photos d))"
    if nr: "list_all (\<lambda>r. \<not> is_real_date (photo_date r)) (photos d)" for P
  proof -
    have s: "sorted_wrt (\<lambda>a b. order_key b \<le> order_key a) (filter P (get_all_photos d))"
      by (simp add: get_all_photos_def sorted_order_by sorted_wrt_filter_desc)
    have sub: "set (filter P (get_all_photos d)) \<subseteq> set (photos d)"
      by (auto simp: get_all_photos_def set_order_by)
    have "?R a b" if "a \<in> set (photos d)" "b \<in> set (photos d)" "order_key b \<le> order_key a"
      for a b
    proof -
      from nr that have "\<not> is_real_date (photo_date a)" "\<not> is_real_date (photo_date b)"
        by (simp_all add: list_all_iff)
      with that(3) show ?thesis by (auto simp: order_key_le_iff date_key_eq_iff)
    qed
    with sub show ?thesis
      by (intro sorted_wrt_mono_rel [OF _ s]) blast
  qed
  have c1: "sorted_wrt ?R (get_all_photos d)"
    if "list_all (\<lambda>r. \<not> is_real_date (photo_date r)) (photos d)"
    using sorted [OF that, of "\<lambda>p. True"] by simp
  have c2: "\<exists>rows. search_photos query d = Inr rows \<and> sorted_wrt ?R rows \<and>
         rows = filter (\<lambda>p. sql_like (''%'' @ query @ ''%'') (photo_title p) \<or>
                             sql_like (''%'' @ query @ ''%'') (photo_description p) \<or>
                             sql_like (''%'' @ query @ ''%'') (photo_location p) \<or>
                             sql_like (''%'' @ query @ ''%'') (photo_tags p) \<or>
                             sql_like (''%'' @ query @ ''%'') (photo_people p))
                  (get_all_photos d)"
    if "list_all (\<lambda>r. \<not> is_real_date (photo_date r)) (photos d) \<and>
        (photos d = [] \<or> utf8_length (''%'' @ query @ ''%'') \<le> max_like_pattern)"
    using that search_photos_within_limit [of d query] sorted by blast
  have c3: "map photo_id (get_all_photos
        (snd (save_photo title3 desc3 ''2021-06-15'' loc3 people3 tags3 up3 img3 t3
          (snd (save_photo title2 desc2 ''2021-06-15'' loc2 people2 tags2 up2 img2 t2
            (snd (save_photo title1 desc1 ''2020-01-01'' loc1 people1 tags1 up1 img1 t1 d)))))))
      = [photo_seq d + 3, photo_seq d + 2, photo_seq d + 1]"
    if "photos d = [] \<and> t2 < t3 \<and> int64 up1 \<and> int64 up2 \<and> int64 up3 \<and>
        list_all int64 people1 \<and> list_all int64 people2 \<and> list_all int64 people3"
    using that
    by (simp add: save_photo_int64 date_affinity_text iso_dates_not_numeric get_all_photos_def
        order_by_date_created_def order_key_def date_key_def)
  from c1 c2 c3 show ?thesis by blast
qed

theorem listing_order_witness:
  "map photo_id (get_all_photos
     (snd (save_photo ''Reunion'' ''c'' ''2021-06-15'' ''Apia'' [] [] 1 ''img'' 20
       (snd (save_photo ''Beach'' ''b'' ''2021-06-15'' ''Apia'' [] [] 1 ''img'' 10
         (snd (save_photo ''Wedding'' ''a'' ''2020-01-01'' ''Apia'' [] [] 1 ''img'' 5 empty_db)))))))
   = [3, 2, 1]"
  using listing_order [of empty_db "''x''" 10 20 1 1 1 "[]" "[]" "[]" "''Reunion''" "''c''"
      "''Apia''" "[]" "''img''" "''Beach''" "''b''" "''Apia''" "[]" "''img''"
      "''Wedding''" "''a''" "''Apia''" "[]" "''img''" 5]
  by (simp add: empty_db_def int64_def)

text \<open>
  The claim as stated fails when the two photos of 2021-06-15 are saved within the same
  second: their creation timestamps are equal, and the one saved first is listed first.
\<close>

theorem listing_same_second_earlier_first:
  "map photo_id (get_all_photos
     (snd (save_photo ''Reunion'' ''c'' ''2021-06-15'' ''Apia'' [] [] 1 ''img'' 10
       (snd (save_photo ''Beach'' ''b'' ''2021-06-15'' ''Apia'' [] [] 1 ''img'' 10
         (snd (save_photo ''Wedding'' ''a'' ''2020-01-01'' ''Apia'' [] [] 1 ''img'' 5 empty_db)))))))
   = [2, 3, 1] \<and>
   map photo_id (get_all_photos
     (snd (save_photo ''Reunion'' ''c'' ''2021-06-15'' ''Apia'' [] [] 1 ''img'' 10
       (snd (save_photo ''Beach'' ''b'' ''2021-06-15'' ''Apia'' [] [] 1 ''img'' 10
         (snd (save_photo ''Wedding'' ''a'' ''2020-01-01'' ''Apia'' [] [] 1 ''img'' 5 empty_db)))))))
   \<noteq> [3, 2, 1]"
  by (simp add: save_photo_int64 int64_def date_affinity_text iso_dates_not_numeric
      get_all_photos_def order_by_date_created_def order_key_def date_key_def empty_db_def)


section \<open>What a search matches\<close>

lemma like_percent:
  "like (CHR ''%'' # ps) s \<longleftrightarrow> (\<exists>s1 s2. s = s1 @ s2 \<and> like ps s2)"
proof (induction s)
  case Nil
  then show ?case by simp
next
  case (Cons c cs)
  show ?case
  proof
    assume "like (CHR ''%'' # ps) (c # cs)"
    then consider "like ps (c # cs)" | "like (CHR ''%'' # ps) cs" by auto
    then show "\<exists>s1 s2. c # cs = s1 @ s2 \<and> like ps s2"
    proof cases
      case 1
      then have "c # cs = [] @ (c # cs) \<and> like ps (c # cs)" by simp
      then show ?thesis by blast
    next
      case 2
      with Cons obtain s1 s2 where "cs = s1 @ s2" "like ps s2" by blast
      then have "c # cs = (c # s1) @ s2 \<and> like ps s2" by simp
      then show ?thesis by blast
    qed
  next
    assume "\<exists>s1 s2. c # cs = s1 @ s2 \<and> like ps s2"
    then obtain s1 s2 where h: "c # cs = s1 @ s2" "like ps s2" by blast
    show "like (CHR ''%'' # ps) (c # cs)"
    proof (cases s1)
      case Nil
      with h show ?thesis by auto
    next
      case (Cons a as)
      with h have "cs = as @ s2" by simp
      with h Cons.IH have "like (CHR ''%'' # ps) cs" by blast
      then show ?thesis by simp
    qed
  qed
qed

lemma like_literal:
  "CHR ''%'' \<notin> set q \<Longrightarrow> CHR ''_'' \<notin> set q \<Longrightarrow>
   like (q @ ps) s \<longleftrightarrow>
     (\<exists>s1 s2. s = s1 @ s2 \<and> map ascii_lower s1 = map ascii_lower q \<and> like ps s2)"
proof (induction q arbitrary: s)
  case Nil
  then show ?case by simp
next
  case (Cons a q)
  show ?case
  proof (cases s)
    case Nil
    with Cons.prems show ?thesis by auto
  next
    case (Cons c cs)
    have "like ((a # q) @ ps) (c # cs) \<longleftrightarrow> ascii_lower a = ascii_lower c \<and> like (q @ ps) cs"
      using Cons.prems by auto
    also have "\<dots> \<longleftrightarrow> ascii_lower a = ascii_lower c \<and>
        (\<exists>s1 s2. cs = s1 @ s2 \<and> map ascii_lower s1 = map ascii_lower q \<and> like ps s2)"
      using Cons.IH [of cs] Cons.prems by simp
    also have "\<dots> \<longleftrightarrow>
        (\<exists>s1 s2. c # cs = s1 @ s2 \<and> map ascii_lower s1 = map ascii_lower (a # q) \<and> like ps s2)"
      (is "?L \<longleftrightarrow> ?R")
    proof
      assume ?L
      then obtain s1 s2 where "cs = s1 @ s2" "map ascii_lower s1 = map ascii_lower q"
        "like ps s2" "ascii_lower a = ascii_lower c" by blast
      then have "c # cs = (c # s1) @ s2 \<and>
          map ascii_lower (c # s1) = map ascii_lower (a # q) \<and> like ps s2"
        by simp
      then show ?R by blast
    next
      assume ?R
      then obtain s1 s2 where h: "c # cs = s1 @ s2"
        "map ascii_lower s1 = map ascii_lower (a # q)" "like ps s2" by blast
      then obtain t where "s1 = c # t" by (cases s1) auto
      with h show ?L by auto
    qed
    finally show ?thesis using Cons by simp
  qed
qed

lemma like_only_percent: "like ''%'' s"
  by (induction s) auto

lemma sublist_map_iff:
  "sublist (map f q) (map f s) \<longleftrightarrow> (\<exists>s0 s1 s2. s = s0 @ s1 @ s2 \<and> map f s1 = map f q)"
proof
  assume "sublist (map f q) (map f s)"
  then obtain ps ss where "map f s = ps @ map f q @ ss" by (auto simp: sublist_def)
  then obtain s0 r where r: "s = s0 @ r" "map f s0 = ps" "map f r = map f q @ ss"
    by (metis map_eq_append_conv)
  then obtain s1 s2 where "r = s1 @ s2" "map f s1 = map f q" "map f s2 = ss"
    by (metis map_eq_append_conv)
  with r show "\<exists>s0 s1 s2. s = s0 @ s1 @ s2 \<and> map f s1 = map f q" by blast
next
  assume "\<exists>s0 s1 s2. s = s0 @ s1 @ s2 \<and> map f s1 = map f q"
  then obtain s0 s1 s2 where "s = s0 @ s1 @ s2" "map f s1 = map f q" by blast
  then have "map f s = map f s0 @ map f q @ map f s2" by simp
  then show "sublist (map f q) (map f s)" by (auto simp: sublist_def)
qed

text \<open>
  A pattern \<^verbatim>\<open>%query%\<close> whose query holds neither \<^verbatim>\<open>%\<close> nor \<^verbatim>\<open>_\<close> matches the
  texts that contain the query, letters compared without regard to case.
\<close>

lemma like_contains:
  assumes "CHR ''%'' \<notin> set query" "CHR ''_'' \<notin> set query"
  shows "like (''%'' @ query @ ''%'') s \<longleftrightarrow> contains_ci query s"
proof -
  have "like (''%'' @ query @ ''%'') s \<longleftrightarrow> (\<exists>s0 r. s = s0 @ r \<and> like (query @ ''%'') r)"
    using like_percent [of "query @ ''%''" s] by simp
  also have "\<dots> \<longleftrightarrow> (\<exists>s0 r. s = s0 @ r \<and>
       (\<exists>s1 s2. r = s1 @ s2 \<and> map ascii_lower s1 = map ascii_lower query))"
    using like_literal [OF assms, of "''%''"] like_only_percent by simp
  also have "\<dots> \<longleftrightarrow> (\<exists>s0 s1 s2. s = s0 @ s1 @ s2 \<and> map ascii_lower s1 = map ascii_lower query)"
    by blast
  finally show ?thesis by (simp add: contains_ci_def sublist_map_iff)
qed

lemma upto_nul_unchanged: "CHR 0x00 \<notin> set s \<Longrightarrow> upto_nul s = s"
  by (auto simp: upto_nul_def takeWhile_eq_all_conv)

lemma utf8_length_pattern: "utf8_length (''%'' @ query @ ''%'') = utf8_length query + 2"
  by (simp add: utf8_length_def)

text \<open>
  For a query without \<^verbatim>\<open>%\<close>, \<^verbatim>\<open>_\<close> and NUL, \<^verbatim>\<open>LIKE\<close> with the pattern \<^verbatim>\<open>%query%\<close>
  finds the query in the text up to its first NUL.
\<close>

lemma sql_like_contains:
  assumes "CHR ''%'' \<notin> set query" "CHR ''_'' \<notin> set query" "CHR 0x00 \<notin> set query"
  shows "sql_like (''%'' @ query @ ''%'') s \<longleftrightarrow> contains_ci query (upto_nul s)"
proof -
  from assms(3) have "CHR 0x00 \<notin> set (''%'' @ query @ ''%'')" by simp
  then have "upto_nul (''%'' @ query @ ''%'') = ''%'' @ query @ ''%''"
    by (rule upto_nul_unchanged)
  then show ?thesis
    by (simp only: sql_like_def like_contains [OF assms(1,2)])
qed

text \<open>
  C5, as the code has it. For a query that holds neither \<^verbatim>\<open>%\<close> nor \<^verbatim>\<open>_\<close> nor a NUL
  character and takes at most 49998 bytes of UTF-8, \<open>search_photos\<close> raises nothing and
  returns exactly the stored photos of which the title, the description, the location,
  the tags text or the people text, each read up to its first NUL character, contains the
  query, the letters A to Z compared without regard to case: the same rows as often as
  the table holds them. When no stored text holds a NUL, these are the photos of which
  one of the five texts contains the query. When exactly one stored photo qualifies, the
  result is that one photo.
\<close>

theorem search_exactly_containing:
  assumes "CHR ''%'' \<notin> set query" and "CHR ''_'' \<notin> set query" and "CHR 0x00 \<notin> set query"
    and "utf8_length query \<le> 49998"
  shows "\<exists>rows. search_photos query d = Inr rows \<and>
           mset rows =
             mset (filter (\<lambda>p. contains_ci query (upto_nul (photo_title p)) \<or>
                              contains_ci query (upto_nul (photo_description p)) \<or>
                              contains_ci query (upto_nul (photo_location p)) \<or>
                              contains_ci query (upto_nul (photo_tags p)) \<or>
                              contains_ci query (upto_nul (photo_people p))) (photos d)) \<and>
           set rows =
             {p \<in> set (photos d). contains_ci query (upto_nul (photo_title p)) \<or>
                              contains_ci query (upto_nul (photo_description p)) \<or>
                              contains_ci query (upto_nul (photo_location p)) \<or>
                              contains_ci query (upto_nul (photo_tags p)) \<or>
                              contains_ci query (upto_nul (photo_people p))} \<and>
           (list_all (\<lambda>p. CHR 0x00 \<notin> set (photo_title p) \<and>
                           CHR 0x00 \<notin> set (photo_description p) \<and>
                           CHR 0x00 \<notin> set (photo_location p) \<and>
                           CHR 0x00 \<notin> set (photo_tags p) \<and>
                           CHR 0x00 \<notin> set (photo_people p)) (photos d) \<longrightarrow>
            set rows =
             {p \<in> set (photos d). contains_ci query (photo_title p) \<or>
                              contains_ci query (photo_description p) \<or>
                              contains_ci query (photo_location p) \<or>
                              contains_ci query (photo_tags p) \<or>
                              contains_ci query (photo_people p)}) \<and>
           (filter (\<lambda>p. contains_ci query (upto_nul (photo_title p)) \<or>
                              contains_ci query (upto_nul (photo_description p)) \<or>
                              contains_ci query (upto_nul (photo_location p)) \<or>
                              contains_ci query (upto_nul (photo_tags p)) \<or>
                              contains_ci query (upto_nul (photo_people p))) (photos d) = [row]
            \<longrightarrow> rows = [row])"
proof -
  let ?C = "\<lambda>p. contains_ci query (upto_nul (photo_title p)) \<or>
      contains_ci query (upto_nul (photo_description p)) \<or>
      contains_ci query (upto_nul (photo_location p)) \<or>
      contains_ci query (upto_nul (photo_tags p)) \<or>
      contains_ci query (upto_nul (photo_people p))"
  let ?rows = "order_by_date_created (filter ?C (photos d))"
  from assms(4) have "\<not> (photos d \<noteq> [] \<and> utf8_length (''%'' @ query @ ''%'') > max_like_pattern)"
    by (simp only: utf8_length_pattern max_like_pattern_def) simp
  then have r: "search_photos query d = Inr ?rows"
    by (simp add: search_photos_def Let_def sql_like_contains [OF assms(1,2,3)]
        del: append.simps)
  have m: "mset ?rows = mset (filter ?C (photos d))"
    by (rule mset_order_by)
  have s: "set ?rows = {p \<in> set (photos d). ?C p}"
    by (simp add: set_order_by)
  have n: "set ?rows =
             {p \<in> set (photos d). contains_ci query (photo_title p) \<or>
                              contains_ci query (photo_description p) \<or>
                              contains_ci query (photo_location p) \<or>
                              contains_ci query (photo_tags p) \<or>
                              contains_ci query (photo_people p)}"
    if "list_all (\<lambda>p. CHR 0x00 \<notin> set (photo_title p) \<and>
                           CHR 0x00 \<notin> set (photo_description p) \<and>
                           CHR 0x00 \<notin> set (photo_location p) \<and>
                           CHR 0x00 \<notin> set (photo_tags p) \<and>
                           CHR 0x00 \<notin> set (photo_people p)) (photos d)"
    using that unfolding s by (auto simp: list_all_iff upto_nul_unchanged)
  have one: "?rows = [row]" if "filter ?C (photos d) = [row]"
  proof -
    from m that have "mset ?rows = {#row#}" by simp
    then show ?thesis by simp
  qed
  from r m s n one show ?thesis by blast
qed

theorem search_exactly_containing_witness:
  "search_photos ''beach''
     (snd (save_photo ''Lunch'' ''At home'' ''2021-06-15'' ''Apia'' [] [''food''] 1 ''img'' 20
       (snd (save_photo ''Swim'' ''A long day'' ''2020-01-01'' ''Lalomanu Beach'' [] [] 1 ''img'' 5
          empty_db))))
   = Inr [\<lparr>photo_id = 1, photo_title = ''Swim'', photo_description = ''A long day'',
       photo_date = DateText ''2020-01-01'', photo_location = ''Lalomanu Beach'',
       photo_people = '''', photo_tags = '''', photo_uploader_id = 1,
       photo_image_data = ''img'', photo_created_at = 5\<rparr>]"
proof -
  let ?d = "snd (save_photo ''Lunch'' ''At home'' ''2021-06-15'' ''Apia'' [] [''food''] 1 ''img'' 20
       (snd (save_photo ''Swim'' ''A long day'' ''2020-01-01'' ''Lalomanu Beach'' [] [] 1 ''img'' 5
          empty_db)))"
  let ?row = "\<lparr>photo_id = 1, photo_title = ''Swim'', photo_description = ''A long day'',
       photo_date = DateText ''2020-01-01'', photo_location = ''Lalomanu Beach'',
       photo_people = '''', photo_tags = '''', photo_uploader_id = 1,
       photo_image_data = ''img'', photo_created_at = 5\<rparr>"
  let ?C = "\<lambda>p. contains_ci ''beach'' (upto_nul (photo_title p)) \<or>
                     contains_ci ''beach'' (upto_nul (photo_description p)) \<or>
                     contains_ci ''beach'' (upto_nul (photo_location p)) \<or>
                     contains_ci ''beach'' (upto_nul (photo_tags p)) \<or>
                     contains_ci ''beach'' (upto_nul (photo_people p))"
  have q: "CHR ''%'' \<notin> set ''beach''" "CHR ''_'' \<notin> set ''beach''"
    "CHR 0x00 \<notin> set ''beach''" "utf8_length ''beach'' \<le> 49998"
    by (simp_all add: utf8_length_def)
  have p: "photos ?d =
      [?row,
       \<lparr>photo_id = 2, photo_title = ''Lunch'', photo_description = ''At home'',
        photo_date = DateText ''2021-06-15'', photo_location = ''Apia'',
        photo_people = '''', photo_tags = ''food'', photo_uploader_id = 1,
        photo_image_data = ''img'', photo_created_at = 20\<rparr>]"
    by (simp add: save_photo_int64 int64_def date_affinity_text iso_dates_not_numeric
        empty_db_def)
  have f: "filter ?C (photos ?d) = [?row]"
    unfolding p
    by (simp add: contains_ci_def upto_nul_def ascii_lower_def less_eq_char_def
        sublist_Cons_right)
  from search_exactly_containing [OF q, of ?d ?row]
  obtain rows where r: "search_photos ''beach'' ?d = Inr rows"
    and o: "filter ?C (photos ?d) = [?row] \<longrightarrow> rows = [?row]"
    by blast
  from o f have "rows = [?row]" by (rule mp)
  with r show ?thesis by simp
qed

text \<open>
  The claim as stated fails for a query that holds a wildcard of \<^verbatim>\<open>LIKE\<close>: the query
  \<^verbatim>\<open>b_ach\<close> is a substring of no field of the photo, with or without regard to case, and
  the search returns the photo.
\<close>

theorem search_wildcard_matches_without_substring:
  "search_photos ''b_ach''
     (snd (save_photo ''Swim'' ''A long day'' ''2020-01-01'' ''Lalomanu Beach'' [] [] 1 ''img'' 5
        empty_db))
   = Inr [\<lparr>photo_id = 1, photo_title = ''Swim'', photo_description = ''A long day'',
       photo_date = DateText ''2020-01-01'', photo_location = ''Lalomanu Beach'',
       photo_people = '''', photo_tags = '''', photo_uploader_id = 1,
       photo_image_data = ''img'', photo_created_at = 5\<rparr>] \<and>
   \<not> contains_ci ''b_ach'' ''Swim'' \<and> \<not> contains_ci ''b_ach'' ''A long day'' \<and>
   \<not> contains_ci ''b_ach'' ''Lalomanu Beach'' \<and> \<not> contains_ci ''b_ach'' '''' \<and>
   \<not> sublist ''b_ach'' ''Swim'' \<and> \<not> sublist ''b_ach'' ''A long day'' \<and>
   \<not> sublist ''b_ach'' ''Lalomanu Beach'' \<and> \<not> sublist ''b_ach'' ''''"
proof -
  let ?d = "snd (save_photo ''Swim'' ''A long day'' ''2020-01-01'' ''Lalomanu Beach'' [] [] 1
        ''img'' 5 empty_db)"
  have p: "photos ?d =
      [\<lparr>photo_id = 1, photo_title = ''Swim'', photo_description = ''A long day'',
       photo_date = DateText ''2020-01-01'', photo_location = ''Lalomanu Beach'',
       photo_people = '''', photo_tags = '''', photo_uploader_id = 1,
       photo_image_data = ''img'', photo_created_at = 5\<rparr>]"
    by (simp add: save_photo_int64 int64_def date_affinity_text iso_dates_not_numeric
        empty_db_def)
  have l: "sql_like ''%b_ach%'' ''Lalomanu Beach''"
    by (simp add: sql_like_def upto_nul_def ascii_lower_def less_eq_char_def)
  have u: "utf8_length ''%b_ach%'' \<le> max_like_pattern"
    by (simp add: utf8_length_def max_like_pattern_def)
  have s: "search_photos ''b_ach'' ?d = Inr (photos ?d)"
    using l u unfolding search_photos_def p
    by (simp add: order_by_date_created_def)
  have n: "\<not> contains_ci ''b_ach'' ''Swim''" "\<not> contains_ci ''b_ach'' ''A long day''"
    "\<not> contains_ci ''b_ach'' ''Lalomanu Beach''" "\<not> contains_ci ''b_ach'' ''''"
    "\<not> sublist ''b_ach'' ''Swim''" "\<not> sublist ''b_ach'' ''A long day''"
    "\<not> sublist ''b_ach'' ''Lalomanu Beach''" "\<not> sublist ''b_ach'' ''''"
    by (simp_all add: contains_ci_def ascii_lower_def less_eq_char_def sublist_Cons_right)
  from s p n show ?thesis by simp
qed


section \<open>Resolving users when a photo is shown\<close>

lemma find_user_None_iff:
  "find (\<lambda>u. user_id u = uid) (users d) = None \<longleftrightarrow> uid \<notin> user_id ` set (users d)"
  by (auto simp: find_None_iff)

lemma get_user_by_id_int64:
  "int64 uid \<Longrightarrow> \<exists>r. get_user_by_id d uid = Inr r"
  by (simp add: get_user_by_id_def)

lemma get_user_by_id_None_iff:
  assumes "int64 uid"
  shows "get_user_by_id d uid = Inr None \<longleftrightarrow> uid \<notin> user_id ` set (users d)"
proof (cases "find (\<lambda>u. user_id u = uid) (users d)")
  case None
  with assms have "get_user_by_id d uid = Inr None" by (simp add: get_user_by_id_def)
  moreover from None have "uid \<notin> user_id ` set (users d)"
    by (rule find_user_None_iff [THEN iffD1])
  ultimately show ?thesis by simp
next
  case (Some u)
  from find_Some_mem [OF Some] have "uid \<in> user_id ` set (users d)" by auto
  moreover from Some assms have "get_user_by_id d uid \<noteq> Inr None"
    by (simp add: get_user_by_id_def)
  ultimately show ?thesis by simp
qed

lemma get_user_by_id_missing:
  "uid \<notin> user_id ` set (users d) \<Longrightarrow>
   get_user_by_id d uid = Inr None \<or> get_user_by_id d uid = Inl OverflowError"
  using get_user_by_id_None_iff [of uid d] by (cases "int64 uid") (simp_all add: get_user_by_id_def)

text \<open>
  The emails of the ids that have a user, in the order of the ids: what the People line
  shows.
\<close>

lemma people_loop_decimal:
  "list_all int64 people \<Longrightarrow>
   people_loop d (map decimal people) acc =
   Inr (acc @ List.map_filter
                (\<lambda>i. case get_user_by_id d i of Inr (Some p) \<Rightarrow> Some (fst p) | _ \<Rightarrow> None)
                people)"
proof (induction people arbitrary: acc)
  case Nil
  then show ?case by (simp add: map_filter_simps)
next
  case (Cons i people)
  then have i: "int64 i" and rest: "list_all int64 people" by simp_all
  from get_user_by_id_int64 [OF i] obtain r where r: "get_user_by_id d i = Inr r" by blast
  show ?case
  proof (cases r)
    case None
    with r Cons.IH [OF rest] i show ?thesis
      by (simp add: py_int_decimal_int64 map_filter_simps)
  next
    case (Some p)
    with r Cons.IH [OF rest] i show ?thesis
      by (simp add: py_int_decimal_int64 map_filter_simps)
  qed
qed

lemma saved_people_loop:
  assumes "photo_people row = (if people \<noteq> [] then join '','' (map decimal people) else '''')"
    and "list_all int64 people"
  shows "(if photo_people row \<noteq> []
          then people_loop d (split CHR '','' (photo_people row)) []
          else Inr []) =
         Inr (List.map_filter
                (\<lambda>i. case get_user_by_id d i of Inr (Some p) \<Rightarrow> Some (fst p) | _ \<Rightarrow> None)
                people)"
proof (cases "people = []")
  case True
  with assms show ?thesis by (simp add: map_filter_simps)
next
  case False
  from people_column_split [OF False] assms(1) False
  have "photo_people row \<noteq> []"
    and "split CHR '','' (photo_people row) = map decimal people" by simp_all
  then show ?thesis by (simp add: people_loop_decimal [OF assms(2)])
qed

lemma timeline_photo_saved:
  assumes "photo_people row = (if people \<noteq> [] then join '','' (map decimal people) else '''')"
    and "list_all int64 people"
    and "b64decode lib (photo_image_data row) = Inr img_bytes"
    and "st_image lib img_bytes = Inr ()"
    and "get_user_by_id d (photo_uploader_id row) = Inr (Some (email, role))"
  shows "timeline_photo lib d row =
     Inr \<lparr>card_label = photo_title row @ '' - '' @ date_text lib (photo_date row),
          card_image = img_bytes,
          card_lines =
            [''**Description:** '' @ photo_description row,
             ''**Location:** '' @ photo_location row,
             ''**People:** '' @ join '', ''
                (List.map_filter
                   (\<lambda>i. case get_user_by_id d i of Inr (Some p) \<Rightarrow> Some (fst p) | _ \<Rightarrow> None)
                   people),
             ''**Tags:** '' @ join '', '' (stored_tags row),
             ''**Uploaded by:** '' @ email @ '' ('' @ role @ '')'']\<rparr>"
  unfolding timeline_photo_def saved_people_loop [OF assms(1,2)]
  using assms(3,4,5) by simp

text \<open>
  C6, as the code has it. \<open>get_user_by_id\<close> on an id within 64 bits raises nothing, and
  returns \<open>None\<close> exactly when no user has the id. For a photo whose people column was
  written by \<open>save_photo\<close> from ids within 64 bits, whose image decodes and is drawn and
  whose uploader exists, the Timeline view shows the photo, whichever of the ids exist:
  the People line holds the emails of the ids that have a user, in order, and an id
  without a user is left out.
\<close>

theorem missing_people_dropped:
  "(int64 uid \<longrightarrow>
      (\<exists>r. get_user_by_id d uid = Inr r) \<and>
      (get_user_by_id d uid = Inr None \<longleftrightarrow> uid \<notin> user_id ` set (users d))) \<and>
   (photo_people row = (if people \<noteq> [] then join '','' (map decimal people) else '''') \<and>
    list_all int64 people \<and>
    b64decode lib (photo_image_data row) = Inr img_bytes \<and>
    st_image lib img_bytes = Inr () \<and>
    get_user_by_id d (photo_uploader_id row) = Inr (Some (email, role)) \<longrightarrow>
    timeline_photo lib d row =
     Inr \<lparr>card_label = photo_title row @ '' - '' @ date_text lib (photo_date row),
          card_image = img_bytes,
          card_lines =
            [''**Description:** '' @ photo_description row,
             ''**Location:** '' @ photo_location row,
             ''**People:** '' @ join '', ''
                (List.map_filter
                   (\<lambda>i. case get_user_by_id d i of Inr (Some p) \<Rightarrow> Some (fst p) | _ \<Rightarrow> None)
                   people),
             ''**Tags:** '' @ join '', '' (stored_tags row),
             ''**Uploaded by:** '' @ email @ '' ('' @ role @ '')'']\<rparr>)"
proof (intro conjI impI)
  assume "int64 uid"
  then show "\<exists>r. get_user_by_id d uid = Inr r" by (rule get_user_by_id_int64)
next
  assume "int64 uid"
  then show "get_user_by_id d uid = Inr None \<longleftrightarrow> uid \<notin> user_id ` set (users d)"
    by (rule get_user_by_id_None_iff)
next
  assume a: "photo_people row = (if people \<noteq> [] then join '','' (map decimal people) else '''') \<and>
    list_all int64 people \<and>
    b64decode lib (photo_image_data row) = Inr img_bytes \<and>
    st_image lib img_bytes = Inr () \<and>
    get_user_by_id d (photo_uploader_id row) = Inr (Some (email, role))"
  then have a1: "photo_people row = (if people \<noteq> [] then join '','' (map decimal people) else '''')"
    and a2: "list_all int64 people"
    and a3: "b64decode lib (photo_image_data row) = Inr img_bytes"
    and a4: "st_image lib img_bytes = Inr ()"
    and a5: "get_user_by_id d (photo_uploader_id row) = Inr (Some (email, role))"
    by simp_all
  show "timeline_photo lib d row =
     Inr \<lparr>card_label = photo_title row @ '' - '' @ date_text lib (photo_date row),
          card_image = img_bytes,
          card_lines =
            [''**Description:** '' @ photo_description row,
             ''**Location:** '' @ photo_location row,
             ''**People:** '' @ join '', ''
                (List.map_filter
                   (\<lambda>i. case get_user_by_id d i of Inr (Some p) \<Rightarrow> Some (fst p) | _ \<Rightarrow> None)
                   people),
             ''**Tags:** '' @ join '', '' (stored_tags row),
             ''**Uploaded by:** '' @ email @ '' ('' @ role @ '')'']\<rparr>"
    by (rule timeline_photo_saved [OF a1 a2 a3 a4 a5])
qed

lemma demo_users_table:
  "users (init_db test_lib 0 empty_db) =
      [\<lparr>user_id = 1, user_email = ''john@family.com'', user_password = ''sha256:demo123'',
        user_role = ''Dad'', user_created_at = 0\<rparr>,
       \<lparr>user_id = 2, user_email = ''mary@family.com'', user_password = ''sha256:demo123'',
        user_role = ''Mum'', user_created_at = 0\<rparr>,
       \<lparr>user_id = 3, user_email = ''sarah@family.com'', user_password = ''sha256:demo123'',
        user_role = ''Daughter'', user_created_at = 0\<rparr>]"
  by (simp add: init_db_def demo_users_def insert_user_def empty_db_def test_lib_def)

lemma demo_users_by_id:
  "get_user_by_id (init_db test_lib 0 empty_db) 1 = Inr (Some (''john@family.com'', ''Dad''))"
  "get_user_by_id (init_db test_lib 0 empty_db) 2 = Inr (Some (''mary@family.com'', ''Mum''))"
  "get_user_by_id (init_db test_lib 0 empty_db) 3
     = Inr (Some (''sarah@family.com'', ''Daughter''))"
  "get_user_by_id (init_db test_lib 0 empty_db) 42 = Inr None"
  "get_user_by_id (init_db test_lib 0 empty_db) 99 = Inr None"
  "get_user_by_id (init_db test_lib 0 empty_db) 9223372036854775808 = Inl OverflowError"
  by (simp_all add: get_user_by_id_def demo_users_table int64_def)

theorem missing_people_dropped_witness:
  "get_user_by_id (init_db test_lib 0 empty_db) 99 = Inr None \<and>
   timeline_photo test_lib (init_db test_lib 0 empty_db)
     \<lparr>photo_id = 1, photo_title = ''Picnic'', photo_description = ''At the park'',
      photo_date = DateText ''2021-06-15'', photo_location = ''Apia'', photo_people = ''2,99,1'',
      photo_tags = ''sun,family'', photo_uploader_id = 3, photo_image_data = ''abc'',
      photo_created_at = 7\<rparr>
   = Inr \<lparr>card_label = ''Picnic - 2021-06-15'', card_image = ''abc'',
          card_lines =
            [''**Description:** At the park'', ''**Location:** Apia'',
             ''**People:** mary@family.com, john@family.com'', ''**Tags:** sun, family'',
             ''**Uploaded by:** sarah@family.com (Daughter)'']\<rparr>"
proof -
  let ?d = "init_db test_lib 0 empty_db"
  let ?row = "\<lparr>photo_id = 1, photo_title = ''Picnic'', photo_description = ''At the park'',
      photo_date = DateText ''2021-06-15'', photo_location = ''Apia'', photo_people = ''2,99,1'',
      photo_tags = ''sun,family'', photo_uploader_id = 3, photo_image_data = ''abc'',
      photo_created_at = 7\<rparr>"
  note g = demo_users_by_id
  have p: "photo_people ?row =
      (if [2, 99, 1] \<noteq> ([] :: int list) then join '','' (map decimal [2, 99, 1]) else '''')"
    by (simp add: decimal_def str_nat.simps)
  have i: "list_all int64 [2, 99, 1]" "int64 99" by (simp_all add: int64_def)
  have b: "b64decode test_lib (photo_image_data ?row) = Inr ''abc''"
    "st_image test_lib ''abc'' = Inr ()"
    by (simp_all add: test_lib_def)
  have u: "get_user_by_id ?d (photo_uploader_id ?row) = Inr (Some (''sarah@family.com'', ''Daughter''))"
    by (simp add: g)
  note t = missing_people_dropped [of 99 ?d ?row "[2, 99, 1]" test_lib "''abc''"
      "''sarah@family.com''" "''Daughter''"]
  from t i(2) have n: "get_user_by_id ?d 99 = Inr None \<longleftrightarrow> 99 \<notin> user_id ` set (users ?d)"
    by blast
  have "99 \<notin> user_id ` set (users ?d)" by (simp add: demo_users_table)
  with n have n': "get_user_by_id ?d 99 = Inr None" by simp
  from t p i(1) b u
  have "timeline_photo test_lib ?d ?row =
     Inr \<lparr>card_label = photo_title ?row @ '' - '' @ date_text test_lib (photo_date ?row),
          card_image = ''abc'',
          card_lines =
            [''**Description:** '' @ photo_description ?row,
             ''**Location:** '' @ photo_location ?row,
             ''**People:** '' @ join '', ''
                (List.map_filter
                   (\<lambda>i. case get_user_by_id ?d i of Inr (Some p) \<Rightarrow> Some (fst p) | _ \<Rightarrow> None)
                   [2, 99, 1]),
             ''**Tags:** '' @ join '', '' (stored_tags ?row),
             ''**Uploaded by:** '' @ ''sarah@family.com'' @ '' ('' @ ''Daughter'' @ '')'']\<rparr>"
    by blast
  then have "timeline_photo test_lib ?d ?row
   = Inr \<lparr>card_label = ''Picnic - 2021-06-15'', card_image = ''abc'',
          card_lines =
            [''**Description:** At the park'', ''**Location:** Apia'',
             ''**People:** mary@family.com, john@family.com'', ''**Tags:** sun, family'',
             ''**Uploaded by:** sarah@family.com (Daughter)'']\<rparr>"
    by (simp add: g map_filter_simps stored_tags_def date_text_def)
  with n' show ?thesis by simp
qed

text \<open>
  The claim as stated fails for an id outside 64 bits: no user has the id
  9223372036854775808, and \<open>get_user_by_id\<close> raises on it instead of returning nothing;
  a photo saved with that id among its people makes the Timeline view raise.
\<close>

theorem out_of_range_id_raises:
  "9223372036854775808 \<notin> user_id ` set (users (init_db test_lib 0 empty_db)) \<and>
   get_user_by_id (init_db test_lib 0 empty_db) 9223372036854775808 = Inl OverflowError \<and>
   photos (snd (save_photo ''Picnic'' ''At the park'' ''2021-06-15'' ''Apia''
                  [2, 9223372036854775808] [] 3 ''abc'' 7 (init_db test_lib 0 empty_db)))
     = [\<lparr>photo_id = 1, photo_title = ''Picnic'', photo_description = ''At the park'',
         photo_date = DateText ''2021-06-15'', photo_location = ''Apia'',
         photo_people = ''2,9223372036854775808'', photo_tags = '''', photo_uploader_id = 3,
         photo_image_data = ''abc'', photo_created_at = 7\<rparr>] \<and>
   timeline_photo test_lib (init_db test_lib 0 empty_db)
     \<lparr>photo_id = 1, photo_title = ''Picnic'', photo_description = ''At the park'',
      photo_date = DateText ''2021-06-15'', photo_location = ''Apia'',
      photo_people = ''2,9223372036854775808'', photo_tags = '''', photo_uploader_id = 3,
      photo_image_data = ''abc'', photo_created_at = 7\<rparr>
     = Inl OverflowError"
proof -
  let ?d = "init_db test_lib 0 empty_db"
  have a: "9223372036854775808 \<notin> user_id ` set (users ?d)" by (simp add: demo_users_table)
  have ph: "photos ?d = []" "photo_seq ?d = 0"
    by (simp_all add: init_db_def demo_users_def insert_user_def empty_db_def test_lib_def)
  have s: "str_all [2, 9223372036854775808] = Inr [''2'', ''9223372036854775808'']"
    by (simp add: str_int_def decimal_def max_str_digits_def str_nat.simps)
  have pt: "people_text [2, 9223372036854775808] = Inr ''2,9223372036854775808''"
    unfolding people_text_def s by simp
  have c: "photos (snd (save_photo ''Picnic'' ''At the park'' ''2021-06-15'' ''Apia''
                  [2, 9223372036854775808] [] 3 ''abc'' 7 ?d))
     = [\<lparr>photo_id = 1, photo_title = ''Picnic'', photo_description = ''At the park'',
         photo_date = DateText ''2021-06-15'', photo_location = ''Apia'',
         photo_people = ''2,9223372036854775808'', photo_tags = '''', photo_uploader_id = 3,
         photo_image_data = ''abc'', photo_created_at = 7\<rparr>]"
    by (simp add: save_photo_def pt int64_def ph date_affinity_text iso_dates_not_numeric)
  have sp: "split CHR '','' ''2,9223372036854775808'' = [''2'', ''9223372036854775808'']"
    by simp
  have pi: "py_int ''2'' = Some 2" "py_int ''9223372036854775808'' = Some 9223372036854775808"
    by (simp_all add: py_int_def is_int_space_def parse_digits_def is_digit_def
        less_eq_char_def max_str_digits_def digits_value_def digit_val_def)
  have t: "timeline_photo test_lib ?d
     \<lparr>photo_id = 1, photo_title = ''Picnic'', photo_description = ''At the park'',
      photo_date = DateText ''2021-06-15'', photo_location = ''Apia'',
      photo_people = ''2,9223372036854775808'', photo_tags = '''', photo_uploader_id = 3,
      photo_image_data = ''abc'', photo_created_at = 7\<rparr>
     = Inl OverflowError"
    by (simp add: timeline_photo_def demo_users_by_id sp pi del: split.simps)
  from a demo_users_by_id(6) c t show ?thesis by simp
qed


section \<open>The uploader of a photo in the Timeline view\<close>

lemma timeline_photo_Inr_uploader:
  assumes "timeline_photo lib d row = Inr c"
  shows "photo_uploader_id row \<in> user_id ` set (users d)"
proof (rule ccontr)
  assume "photo_uploader_id row \<notin> user_id ` set (users d)"
  from get_user_by_id_missing [OF this]
  have "timeline_photo lib d row \<noteq> Inr c"
    by (auto simp: timeline_photo_def split: sum.splits)
  with assms show False by simp
qed

lemma timeline_Inr_each:
  "timeline lib d rows = Inr cards \<Longrightarrow> row \<in> set rows \<Longrightarrow>
   \<exists>c. timeline_photo lib d row = Inr c"
proof (induction rows arbitrary: cards)
  case Nil
  then show ?case by simp
next
  case (Cons r rows)
  from Cons.prems(1) obtain c cs where c: "timeline_photo lib d r = Inr c"
    and cs: "timeline lib d rows = Inr cs"
    by (auto split: sum.splits)
  show ?case
  proof (cases "row = r")
    case True
    with c show ?thesis by simp
  next
    case False
    with Cons.prems(2) have "row \<in> set rows" by simp
    from Cons.IH [OF cs this] show ?thesis .
  qed
qed

text \<open>
  C10. The Timeline view looks the uploader of each photo up with \<open>get_user_by_id\<close> and
  indexes the result without a test. For a photo whose uploader id has no user the view
  does not show the photo: it ends in an exception. When the lookup returned \<open>None\<close>,
  the people column was written by \<open>save_photo\<close> from ids within 64 bits and the image
  decodes and is drawn, the exception is the \<open>TypeError\<close> of indexing \<open>None\<close>. So the
  view of a list of photos succeeds only if the uploader of every photo in it exists; and
  one photo in the list without its uploader makes the whole view fail.
\<close>

theorem missing_uploader_fails:
  "(photo_uploader_id row \<notin> user_id ` set (users d) \<longrightarrow>
      (\<exists>e. timeline_photo lib d row = Inl e)) \<and>
   (get_user_by_id d (photo_uploader_id row) = Inr None \<and>
    photo_people row = (if people \<noteq> [] then join '','' (map decimal people) else '''') \<and>
    list_all int64 people \<and>
    b64decode lib (photo_image_data row) = Inr img_bytes \<and>
    st_image lib img_bytes = Inr () \<longrightarrow>
      timeline_photo lib d row = Inl TypeError) \<and>
   (timeline lib d rows = Inr cards \<longrightarrow>
      list_all (\<lambda>r. photo_uploader_id r \<in> user_id ` set (users d)) rows) \<and>
   (row \<in> set rows \<and> photo_uploader_id row \<notin> user_id ` set (users d) \<longrightarrow>
      (\<exists>e. timeline lib d rows = Inl e))"
proof (intro conjI impI)
  assume n: "photo_uploader_id row \<notin> user_id ` set (users d)"
  show "\<exists>e. timeline_photo lib d row = Inl e"
  proof (cases "timeline_photo lib d row")
    case (Inl e)
    then show ?thesis by simp
  next
    case (Inr c)
    from timeline_photo_Inr_uploader [OF Inr] n show ?thesis by simp
  qed
next
  assume a: "get_user_by_id d (photo_uploader_id row) = Inr None \<and>
    photo_people row = (if people \<noteq> [] then join '','' (map decimal people) else '''') \<and>
    list_all int64 people \<and>
    b64decode lib (photo_image_data row) = Inr img_bytes \<and>
    st_image lib img_bytes = Inr ()"
  then have a1: "photo_people row = (if people \<noteq> [] then join '','' (map decimal people) else '''')"
    and a2: "list_all int64 people" by simp_all
  show "timeline_photo lib d row = Inl TypeError"
    unfolding timeline_photo_def saved_people_loop [OF a1 a2]
    using a by simp
next
  assume t: "timeline lib d rows = Inr cards"
  have "photo_uploader_id r \<in> user_id ` set (users d)" if "r \<in> set rows" for r
  proof -
    from timeline_Inr_each [OF t that] obtain c where "timeline_photo lib d r = Inr c" by blast
    then show ?thesis by (rule timeline_photo_Inr_uploader)
  qed
  then show "list_all (\<lambda>r. photo_uploader_id r \<in> user_id ` set (users d)) rows"
    by (simp add: list_all_iff)
next
  assume a: "row \<in> set rows \<and> photo_uploader_id row \<notin> user_id ` set (users d)"
  show "\<exists>e. timeline lib d rows = Inl e"
  proof (cases "timeline lib d rows")
    case (Inl e)
    then show ?thesis by simp
  next
    case (Inr cards)
    from timeline_Inr_each [OF Inr] a obtain c where "timeline_photo lib d row = Inr c" by blast
    from timeline_photo_Inr_uploader [OF this] a show ?thesis by simp
  qed
qed

theorem missing_uploader_fails_witness:
  "42 \<notin> user_id ` set (users (init_db test_lib 0 empty_db)) \<and>
   get_user_by_id (init_db test_lib 0 empty_db) 42 = Inr None \<and>
   timeline_photo test_lib (init_db test_lib 0 empty_db)
     \<lparr>photo_id = 1, photo_title = ''Picnic'', photo_description = ''At the park'',
      photo_date = DateText ''2021-06-15'', photo_location = ''Apia'', photo_people = ''2,99,1'',
      photo_tags = ''sun,family'', photo_uploader_id = 42, photo_image_data = ''abc'',
      photo_created_at = 7\<rparr>
   = Inl TypeError"
proof -
  let ?d = "init_db test_lib 0 empty_db"
  let ?row = "\<lparr>photo_id = 1, photo_title = ''Picnic'', photo_description = ''At the park'',
      photo_date = DateText ''2021-06-15'', photo_location = ''Apia'', photo_people = ''2,99,1'',
      photo_tags = ''sun,family'', photo_uploader_id = 42, photo_image_data = ''abc'',
      photo_created_at = 7\<rparr>"
  have m: "42 \<notin> user_id ` set (users ?d)" by (simp add: demo_users_table)
  have g: "get_user_by_id ?d (photo_uploader_id ?row) = Inr None"
    by (simp add: demo_users_by_id)
  have p: "photo_people ?row =
      (if [2, 99, 1] \<noteq> ([] :: int list) then join '','' (map decimal [2, 99, 1]) else '''')"
    by (simp add: decimal_def str_nat.simps)
  have i: "list_all int64 [2, 99, 1]" by (simp add: int64_def)
  have b: "b64decode test_lib (photo_image_data ?row) = Inr ''abc''"
    "st_image test_lib ''abc'' = Inr ()"
    by (simp_all add: test_lib_def)
  from missing_uploader_fails [of ?row ?d test_lib "[2, 99, 1]" "''abc''" "[]" "[]"] g p i b
  have "timeline_photo test_lib ?d ?row = Inl TypeError" by blast
  with m demo_users_by_id(4) show ?thesis by simp
qed


section \<open>An upload that cannot be decoded\<close>

lemma resize_image_open_fails:
  "image_open lib raw = Inl e \<Longrightarrow> resize_image lib raw max_size = Inl e"
  by (simp add: resize_image_def)

lemma resize_image_thumbnail_fails:
  "image_open lib raw = Inr img \<Longrightarrow> thumbnail lib max_size img = Inl e \<Longrightarrow>
   resize_image lib raw max_size = Inl e"
  by (simp add: resize_image_def)

lemma resize_image_saves:
  "image_open lib raw = Inr img \<Longrightarrow> thumbnail lib max_size img = Inr small \<Longrightarrow>
   resize_image lib raw max_size = image_save_jpeg lib small"
  by (simp add: resize_image_def)

lemma upload_photo_resize_fails:
  "resize_image lib raw default_max_size = Inl e \<Longrightarrow>
   upload_photo lib usr title desc date loc people_ids tags (Some raw) is_collage
     save_clicked now d =
   (\<lparr>shown = (if is_collage
               then [Warning ''In production, AI will detect and separate individual photos from this collage.'']
               else []),
     raised = Some e\<rparr>, d)"
  by (simp add: upload_photo_def Let_def)

text \<open>
  C8, as the code has it. When the decoder rejects the uploaded bytes, be it at
  \<^verbatim>\<open>Image.open\<close> or when \<^verbatim>\<open>thumbnail\<close> loads them, \<open>resize_image\<close> raises the decoder's
  exception. The upload handler calls \<open>resize_image\<close> outside any \<^verbatim>\<open>try\<close>: whenever
  \<open>resize_image\<close> raises, the exception leaves the handler as it is; the handler has
  shown the warning about a collage, if that box is ticked, and nothing else, no error
  message among it; and no photo is saved (the database is unchanged), whether or not
  Save Photo was pressed.
\<close>

theorem undecodable_upload_raises:
  "(image_open lib raw = Inl e \<longrightarrow> resize_image lib raw max_size = Inl e) \<and>
   (image_open lib raw = Inr img \<and> thumbnail lib max_size img = Inl e \<longrightarrow>
      resize_image lib raw max_size = Inl e) \<and>
   (resize_image lib raw default_max_size = Inl e \<longrightarrow>
      upload_photo lib usr title desc date loc people_ids tags (Some raw) is_collage
        save_clicked now d =
      (\<lparr>shown = (if is_collage
                  then [Warning ''In production, AI will detect and separate individual photos from this collage.'']
                  else []),
        raised = Some e\<rparr>, d))"
proof (intro conjI impI)
  assume "image_open lib raw = Inl e"
  then show "resize_image lib raw max_size = Inl e" by (rule resize_image_open_fails)
next
  assume "image_open lib raw = Inr img \<and> thumbnail lib max_size img = Inl e"
  then show "resize_image lib raw max_size = Inl e"
    by (simp add: resize_image_thumbnail_fails)
next
  assume "resize_image lib raw default_max_size = Inl e"
  then show "upload_photo lib usr title desc date loc people_ids tags (Some raw) is_collage
        save_clicked now d =
      (\<lparr>shown = (if is_collage
                  then [Warning ''In production, AI will detect and separate individual photos from this collage.'']
                  else []),
        raised = Some e\<rparr>, d)"
    by (rule upload_photo_resize_fails)
qed

theorem undecodable_upload_raises_witness:
  "image_open test_lib ''not an image'' = Inl UnidentifiedImageError \<and>
   resize_image test_lib ''not an image'' default_max_size = Inl UnidentifiedImageError \<and>
   upload_photo test_lib \<lparr>session_id = 1, session_email = ''john@family.com'', session_role = ''Dad''\<rparr>
     ''Picnic'' ''At the park'' ''2021-06-15'' ''Apia'' [2] ''sun'' (Some ''not an image'') True
     True 7 (init_db test_lib 0 empty_db)
   = (\<lparr>shown = [Warning ''In production, AI will detect and separate individual photos from this collage.''],
       raised = Some UnidentifiedImageError\<rparr>, init_db test_lib 0 empty_db)"
proof -
  have o: "image_open test_lib ''not an image'' = Inl UnidentifiedImageError"
    by (simp add: test_lib_def)
  note t = undecodable_upload_raises [of test_lib "''not an image''" UnidentifiedImageError
      default_max_size "\<lparr>pic_width = 1, pic_height = 1, pic_pixels = ()\<rparr>"
      "\<lparr>session_id = 1, session_email = ''john@family.com'', session_role = ''Dad''\<rparr>"
      "''Picnic''" "''At the park''" "''2021-06-15''" "''Apia''" "[2]" "''sun''" True True 7
      "init_db test_lib 0 empty_db"]
  from t o have r: "resize_image test_lib ''not an image'' default_max_size
      = Inl UnidentifiedImageError" by blast
  with t have "upload_photo test_lib
     \<lparr>session_id = 1, session_email = ''john@family.com'', session_role = ''Dad''\<rparr>
     ''Picnic'' ''At the park'' ''2021-06-15'' ''Apia'' [2] ''sun'' (Some ''not an image'') True
     True 7 (init_db test_lib 0 empty_db)
   = (\<lparr>shown = (if True
                  then [Warning ''In production, AI will detect and separate individual photos from this collage.'']
                  else []),
       raised = Some UnidentifiedImageError\<rparr>, init_db test_lib 0 empty_db)" by blast
  with o r show ?thesis by simp
qed

text \<open>
  The claim as stated fails on bytes the decoder rejects: the handler ends in the uncaught
  exception and has reported nothing.
\<close>

theorem undecodable_upload_not_reported:
  "image_open test_lib ''not an image'' = Inl UnidentifiedImageError \<and>
   upload_photo test_lib
     \<lparr>session_id = 1, session_email = ''john@family.com'', session_role = ''Dad''\<rparr>
     ''Picnic'' ''At the park'' ''2021-06-15'' ''Apia'' [2] ''sun'' (Some ''not an image'')
     False True 7 (init_db test_lib 0 empty_db)
   = (\<lparr>shown = [], raised = Some UnidentifiedImageError\<rparr>, init_db test_lib 0 empty_db)"
  by (simp add: upload_photo_def resize_image_def test_lib_def Let_def)


section \<open>The size of a normalized image\<close>

lemma floor_div_bounds:
  fixes a b :: nat
  assumes "0 < b"
  shows "a div b * b \<le> a" and "a < a div b * b + b"
proof -
  have e: "a = a div b * b + a mod b" by simp
  have m: "a mod b < b" using assms by simp
  from e show "a div b * b \<le> a" by linarith
  from e m show "a < a div b * b + b" by linarith
qed

lemma ceil_div_bounds:
  fixes a b :: nat
  assumes "0 < b"
  shows "a \<le> ceil_div a b * b" and "ceil_div a b * b < a + b"
proof -
  have e: "a = a div b * b + a mod b" by simp
  have m: "a mod b < b" using assms by simp
  show "a \<le> ceil_div a b * b"
  proof (cases "a mod b = 0")
    case True
    with e show ?thesis by (simp add: ceil_div_def)
  next
    case False
    then have "ceil_div a b * b = a div b * b + b" by (simp add: ceil_div_def)
    with e m show ?thesis by linarith
  qed
  show "ceil_div a b * b < a + b"
  proof (cases "a mod b = 0")
    case True
    with e assms show ?thesis by (simp add: ceil_div_def)
  next
    case False
    then have "ceil_div a b * b = a div b * b + b" by (simp add: ceil_div_def)
    with e False show ?thesis by linarith
  qed
qed

lemma floor_le_ceil: "a div b \<le> ceil_div a b"
  by (simp add: ceil_div_def)

lemma ceil_div_le:
  fixes a b k :: nat
  assumes "0 < b" and "a \<le> k * b"
  shows "ceil_div a b \<le> k"
proof (rule ccontr)
  assume "\<not> ceil_div a b \<le> k"
  then have "k + 1 \<le> ceil_div a b" by simp
  then have "(k + 1) * b \<le> ceil_div a b * b" by (rule mult_le_mono1)
  with ceil_div_bounds(2) [OF assms(1), of a] have "(k + 1) * b < a + b" by linarith
  with assms(2) show False by simp
qed

text \<open>
  A rounded dimension is positive, within one unit of the proportional value \<open>a / b\<close>, and
  not above a whole number that the proportional value does not exceed.
\<close>

lemma rounded_bounds:
  fixes a b r :: nat
  assumes "0 < a" and "0 < b"
    and "r = max 1 (a div b) \<or> r = max 1 (ceil_div a b) \<or> (r = 1 \<and> a div b = 0)"
  shows "0 < r" and "r * b < a + b" and "a < r * b + b"
    and "\<And>k. 0 < k \<Longrightarrow> a \<le> k * b \<Longrightarrow> r \<le> k"
proof -
  note f = floor_div_bounds [OF assms(2), of a]
  note c = ceil_div_bounds [OF assms(2), of a]
  from assms(3) show "0 < r" by auto
  have small: "a < b" if "a div b = 0" using f(2) that by simp
  from assms(3) consider (fl) "r = a div b" "1 \<le> a div b"
    | (ce) "r = ceil_div a b" "1 \<le> ceil_div a b"
    | (one) "r = 1" "a div b = 0"
    using floor_le_ceil [of a b]
    by (cases "a div b = 0"; cases "ceil_div a b = 0") (auto simp: max_def split: if_splits)
  then show "r * b < a + b"
  proof cases
    case fl
    from f(1) assms(2) show ?thesis unfolding fl(1) by linarith
  next
    case ce
    from c(2) show ?thesis unfolding ce(1) .
  next
    case one
    with assms show ?thesis by simp
  qed
  from assms(3) consider (fl) "r = a div b" "1 \<le> a div b"
    | (ce) "r = ceil_div a b" "1 \<le> ceil_div a b"
    | (one) "r = 1" "a div b = 0"
    using floor_le_ceil [of a b]
    by (cases "a div b = 0"; cases "ceil_div a b = 0") (auto simp: max_def split: if_splits)
  then show "a < r * b + b"
  proof cases
    case fl
    from f(2) show ?thesis unfolding fl(1) .
  next
    case ce
    from c(1) assms(2) show ?thesis unfolding ce(1) by linarith
  next
    case one
    with small show ?thesis by simp
  qed
  fix k :: nat
  assume k: "0 < k" "a \<le> k * b"
  from ceil_div_le [OF assms(2) k(2)] floor_le_ceil [of a b] k(1) assms(3)
  show "r \<le> k" by (auto simp: max_def)
qed

lemma round_aspect_width_cases:
  "round_aspect_width mh w h = max 1 ((mh * w) div h) \<or>
   round_aspect_width mh w h = max 1 (ceil_div (mh * w) h)"
  by (simp add: round_aspect_width_def Let_def)

lemma round_aspect_height_cases:
  "round_aspect_height mw w h = max 1 ((mw * h) div w) \<or>
   round_aspect_height mw w h = max 1 (ceil_div (mw * h) w) \<or>
   (round_aspect_height mw w h = 1 \<and> (mw * h) div w = 0)"
  by (simp add: round_aspect_height_def Let_def)

lemma thumbnail_size_examples:
  "thumbnail_size default_max_size (2000, 1000) = (800, 400)"
  "thumbnail_size default_max_size (400, 300) = (400, 300)"
  by (simp_all add: thumbnail_size_def default_max_size_def round_aspect_height_def
      round_aspect_width_def ceil_div_def Let_def)

lemma thumbnail_size_bounds:
  assumes pos: "0 < mw" "0 < mh" "0 < w" "0 < h"
    and t: "thumbnail_size (mw, mh) (w, h) = (w', h')"
  shows "w' \<le> mw \<and> h' \<le> mh \<and> 0 < w' \<and> 0 < h' \<and> w' \<le> w \<and> h' \<le> h \<and>
         (w \<le> mw \<and> h \<le> mh \<longrightarrow> w' = w \<and> h' = h) \<and>
         (mw < w \<or> mh < h \<longrightarrow>
            (w' = mw \<and> h' * w < mw * h + w \<and> mw * h < h' * w + w) \<or>
            (h' = mh \<and> w' * h < mh * w + h \<and> mh * w < w' * h + h))"
proof (cases "w \<le> mw \<and> h \<le> mh")
  case True
  with t pos show ?thesis by (simp add: thumbnail_size_def)
next
  case False
  show ?thesis
  proof (cases "mh * w \<le> mw * h")
    case True
    with False t have w': "w' = round_aspect_width mh w h" and h': "h' = mh"
      by (auto simp: thumbnail_size_def split: if_splits)
    have hm: "mh < h"
    proof (rule ccontr)
      assume "\<not> mh < h"
      then have "h \<le> mh" by simp
      then have "mw * h \<le> mw * mh" by (rule mult_le_mono2)
      with True have "mh * w \<le> mh * mw" by (metis mult.commute order_trans)
      with pos(2) have "w \<le> mw" by simp
      with \<open>h \<le> mh\<close> False show False by simp
    qed
    have a: "0 < mh * w" using pos by simp
    have r: "w' = max 1 ((mh * w) div h) \<or> w' = max 1 (ceil_div (mh * w) h) \<or>
        (w' = 1 \<and> (mh * w) div h = 0)"
      using round_aspect_width_cases [of mh w h] w' by blast
    note b = rounded_bounds [OF a pos(4) r]
    from True have k1: "mh * w \<le> mw * h" .
    from hm have "mh * w \<le> h * w" by (intro mult_le_mono1) simp
    then have k2: "mh * w \<le> w * h" by (simp add: mult.commute)
    from b(4) [OF pos(1) k1] have "w' \<le> mw" .
    moreover from b(4) [OF pos(3) k2] have "w' \<le> w" .
    moreover note b(1) b(2) b(3)
    ultimately show ?thesis using h' hm pos False by simp
  next
    case c: False
    with False t have w': "w' = mw" and h': "h' = round_aspect_height mw w h"
      by (auto simp: thumbnail_size_def split: if_splits)
    from c have lt: "mw * h < mh * w" by simp
    have wm: "mw < w"
    proof (rule ccontr)
      assume "\<not> mw < w"
      then have "w \<le> mw" by simp
      then have "mh * w \<le> mh * mw" by (rule mult_le_mono2)
      with lt have "mw * h < mw * mh" by (metis mult.commute less_le_trans)
      with pos(1) have "h < mh" by simp
      with \<open>w \<le> mw\<close> False show False by simp
    qed
    have a: "0 < mw * h" using pos by simp
    note r = round_aspect_height_cases [of mw w h, folded h']
    note b = rounded_bounds [OF a pos(3) r]
    from lt have k1: "mw * h \<le> mh * w" by simp
    from wm have "mw * h \<le> w * h" by (intro mult_le_mono1) simp
    then have k2: "mw * h \<le> h * w" by (simp add: mult.commute)
    from b(4) [OF pos(2) k1] have "h' \<le> mh" .
    moreover from b(4) [OF pos(4) k2] have "h' \<le> h" .
    moreover note b(1) b(2) b(3)
    ultimately show ?thesis using w' wm pos False by simp
  qed
qed

lemma resize_image_size:
  assumes "image_open lib raw = Inr img" and "resize_image lib raw max_size = Inr out"
  shows "\<exists>small. image_save_jpeg lib small = Inr out \<and>
           (pic_width small, pic_height small) =
             thumbnail_size max_size (pic_width img, pic_height img)"
proof (cases "thumbnail lib max_size img")
  case (Inl e)
  with assms show ?thesis by (simp add: resize_image_def)
next
  case (Inr small)
  with assms have s: "image_save_jpeg lib small = Inr out" by (simp add: resize_image_def)
  from Inr have "(pic_width small, pic_height small) =
      thumbnail_size max_size (pic_width img, pic_height img)"
    by (auto simp: thumbnail_def Let_def split: if_splits sum.splits)
  with s show ?thesis by blast
qed

text \<open>
  C7. \<open>resize_image\<close> hands the JPEG encoder the image that \<open>thumbnail\<close> makes for the
  bound of 800 by 800, so the normalized image has the size \<open>thumbnail_size\<close> gives. For
  an image of positive width and height that size exceeds 800 in neither dimension, is
  positive and exceeds the input in neither dimension; an image within the bound keeps
  its size; and an image beyond the bound gets one dimension of exactly 800 and the other
  less than one unit away from the value that keeps the aspect ratio. An input of 2000 by
  1000 gives 800 by 400, and one of 400 by 300 stays 400 by 300.
\<close>

theorem normalize_size:
  "(0 < w \<and> 0 < h \<and> thumbnail_size default_max_size (w, h) = (w', h') \<longrightarrow>
      w' \<le> 800 \<and> h' \<le> 800 \<and> 0 < w' \<and> 0 < h' \<and> w' \<le> w \<and> h' \<le> h \<and>
      (w \<le> 800 \<and> h \<le> 800 \<longrightarrow> w' = w \<and> h' = h) \<and>
      (800 < w \<or> 800 < h \<longrightarrow>
         (w' = 800 \<and> h' * w < 800 * h + w \<and> 800 * h < h' * w + w) \<or>
         (h' = 800 \<and> w' * h < 800 * w + h \<and> 800 * w < w' * h + h))) \<and>
   thumbnail_size default_max_size (2000, 1000) = (800, 400) \<and>
   thumbnail_size default_max_size (400, 300) = (400, 300) \<and>
   (image_open lib raw = Inr img \<and> resize_image lib raw default_max_size = Inr out \<longrightarrow>
      (\<exists>small. image_save_jpeg lib small = Inr out \<and>
         (pic_width small, pic_height small) =
           thumbnail_size default_max_size (pic_width img, pic_height img)))"
proof (intro conjI impI)
  assume a: "0 < w \<and> 0 < h \<and> thumbnail_size default_max_size (w, h) = (w', h')"
  then have t: "thumbnail_size (800, 800) (w, h) = (w', h')" and p: "0 < w" "0 < h"
    by (simp_all add: default_max_size_def)
  have m: "(0 :: nat) < 800" by simp
  note b = thumbnail_size_bounds [OF m m p t]
  from b show "w' \<le> 800" by blast
  from b show "h' \<le> 800" by blast
  from b show "0 < w'" by blast
  from b show "0 < h'" by blast
  from b show "w' \<le> w" by blast
  from b show "h' \<le> h" by blast
  from b show "w' = w" if "w \<le> 800 \<and> h \<le> 800" using that by blast
  from b show "h' = h" if "w \<le> 800 \<and> h \<le> 800" using that by blast
  from b show "(w' = 800 \<and> h' * w < 800 * h + w \<and> 800 * h < h' * w + w) \<or>
         (h' = 800 \<and> w' * h < 800 * w + h \<and> 800 * w < w' * h + h)"
    if "800 < w \<or> 800 < h" using that by blast
next
  show "thumbnail_size default_max_size (2000, 1000) = (800, 400)"
    by (rule thumbnail_size_examples)
  show "thumbnail_size default_max_size (400, 300) = (400, 300)"
    by (rule thumbnail_size_examples)
next
  assume "image_open lib raw = Inr img \<and> resize_image lib raw default_max_size = Inr out"
  then show "\<exists>small. image_save_jpeg lib small = Inr out \<and>
         (pic_width small, pic_height small) =
           thumbnail_size default_max_size (pic_width img, pic_height img)"
    using resize_image_size by blast
qed

theorem normalize_size_witness:
  "thumbnail_size default_max_size (1920, 1080) = (800, 450) \<and>
   resize_image test_lib ''IMG of a photo'' default_max_size = Inr ''JPEG'' \<and>
   (\<exists>small. image_save_jpeg test_lib small = Inr ''JPEG'' \<and>
      (pic_width small, pic_height small) = (14, 14))"
proof -
  have t: "thumbnail_size default_max_size (1920, 1080) = (800, 450)"
    by (simp add: thumbnail_size_def default_max_size_def round_aspect_height_def
        round_aspect_width_def ceil_div_def Let_def)
  have o: "image_open test_lib ''IMG of a photo'' =
      Inr \<lparr>pic_width = 14, pic_height = 14, pic_pixels = ()\<rparr>"
    by (simp add: test_lib_def)
  have s: "thumbnail_size default_max_size (14, 14) = (14, 14)"
    by (simp add: thumbnail_size_def default_max_size_def)
  have r: "resize_image test_lib ''IMG of a photo'' default_max_size = Inr ''JPEG''"
    by (simp add: resize_image_def o thumbnail_def s) (simp add: test_lib_def)
  from normalize_size [of 1920 1080 800 450 test_lib "''IMG of a photo''"
      "\<lparr>pic_width = 14, pic_height = 14, pic_pixels = ()\<rparr>" "''JPEG''"] o r
  have "\<exists>small. image_save_jpeg test_lib small = Inr ''JPEG'' \<and>
      (pic_width small, pic_height small) =
        thumbnail_size default_max_size
          (pic_width \<lparr>pic_width = 14, pic_height = 14, pic_pixels = ()\<rparr>,
           pic_height \<lparr>pic_width = 14, pic_height = 14, pic_pixels = ()\<rparr>)"
    by blast
  then have "\<exists>small. image_save_jpeg test_lib small = Inr ''JPEG'' \<and>
      (pic_width small, pic_height small) = (14, 14)"
    by (simp add: s)
  with t r show ?thesis by simp
qed

end
